theory Spec2Isabelle
  imports Main "HOL-Library.AList"
begin

section \<open>Input vocabulary\<close>

text \<open>
  The constants of \<^verbatim>\<open>input-tracker.py\<close> (lines 14-36) and of class
  \<^verbatim>\<open>InputKeys\<close> in \<^verbatim>\<open>metric-collector.py\<close> (lines 15-37); the two files
  hold the same literals. A Python set has no order; the lists below follow the order of
  the literals, and the properties proved are about membership and about the finite maps
  the lists denote.
\<close>

definition SPECIAL_KEYS :: "string list" where
  "SPECIAL_KEYS =
    [''shift'', ''shift_r'', ''shift_l'', ''ctrl'', ''ctrl_r'', ''ctrl_l'',
     ''alt'', ''alt_r'', ''alt_l'', ''cmd'', ''cmd_r'', ''cmd_l'',
     ''enter'', ''backspace'', ''delete'', ''space'', ''tab'', ''caps_lock'',
     ''esc'', ''up'', ''down'', ''left'', ''right'',
     ''page_up'', ''page_down'', ''home'', ''end'',
     ''insert'', ''num_lock'', ''scroll_lock'',
     ''f1'', ''f2'', ''f3'', ''f4'', ''f5'', ''f6'',
     ''f7'', ''f8'', ''f9'', ''f10'', ''f11'', ''f12'']"

text \<open>Every key of \<^verbatim>\<open>REGULAR_KEYS\<close> is a string of one character; the rows are
  those of the literal (0x60 is the backquote, 0x5C the backslash, 0x27 and 0x22 the two
  quotes).\<close>

definition REGULAR_KEYS :: "string list" where
  "REGULAR_KEYS =
     map (\<lambda>c. [c])
       (''abcdefghij'' @
        ''klmnopqrst'' @
        ''uvwxyz'' @
        ''0123456789'' @
        (CHR 0x60 # ''-=[]'') @ (CHR 0x5C # '';'') @ (CHR 0x27 # '',./'') @
        ''~!@#$%^&*()'' @
        ''_+{}|:'' @ (CHR 0x22 # ''<>?''))"

definition MOUSE_BUTTONS :: "string list" where
  "MOUSE_BUTTONS = [''mouse_left'', ''mouse_right'', ''mouse_middle'']"

definition ALL_INPUTS :: "string list" where
  "ALL_INPUTS = SPECIAL_KEYS @ REGULAR_KEYS @ MOUSE_BUTTONS"

section \<open>Python dictionaries\<close>

text \<open>
  A \<^verbatim>\<open>dict\<close> keeps its keys in insertion order and holds each key once: an association
  list whose keys are distinct. Assigning to a key that is present keeps its place, assigning
  to a new key appends it; that is \<^const>\<open>AList.update\<close>.
\<close>

type_synonym 'v dict = "(string \<times> 'v) list"

definition dict_wf :: "'v dict \<Rightarrow> bool" where
  "dict_wf d = distinct (map fst d)"

text \<open>\<^verbatim>\<open>k in d\<close>\<close>

definition dict_in :: "string \<Rightarrow> 'v dict \<Rightarrow> bool" where
  "dict_in k d = (map_of d k \<noteq> None)"

text \<open>\<^verbatim>\<open>d.get(k, default)\<close>\<close>

definition dict_get :: "'v dict \<Rightarrow> string \<Rightarrow> 'v \<Rightarrow> 'v" where
  "dict_get d k dflt = (case map_of d k of None \<Rightarrow> dflt | Some v \<Rightarrow> v)"

text \<open>\<^verbatim>\<open>d.update(other)\<close>: every item of \<open>other\<close> is assigned, in order.\<close>

definition dict_update :: "'v dict \<Rightarrow> 'v dict \<Rightarrow> 'v dict" where
  "dict_update d other = fold (\<lambda>(k, v). AList.update k v) other d"

text \<open>\<^verbatim>\<open>{k: v for (k, v) in pairs}\<close>\<close>

definition dict_of :: "(string \<times> 'v) list \<Rightarrow> 'v dict" where
  "dict_of pairs = dict_update [] pairs"

section \<open>Raw events and their resolution\<close>

text \<open>
  The keyboard listener hands \<^verbatim>\<open>on_press\<close> either a \<^verbatim>\<open>KeyCode\<close> (it has the attribute
  \<^verbatim>\<open>char\<close>, which is a string or \<^verbatim>\<open>None\<close>), a member of the enumeration \<^verbatim>\<open>Key\<close>
  (no attribute \<^verbatim>\<open>char\<close>; its \<^verbatim>\<open>str\<close> is \<^verbatim>\<open>Key.\<close> followed by the member's name),
  or \<^verbatim>\<open>None\<close> for a key the library does not know. The members of \<^verbatim>\<open>Key\<close> are
  declared by the input library, so the name is a parameter here.
\<close>

datatype key = KeyCode "string option" | Key string | NoKey

datatype button = Button_left | Button_right | Button_middle | Button_other string

text \<open>\<^verbatim>\<open>s.replace('Key.', '')\<close>: every occurrence is removed, scanning from the left.\<close>

function replace_Key_dot :: "string \<Rightarrow> string" where
  "replace_Key_dot s =
     (if take 4 s = ''Key.'' then replace_Key_dot (drop 4 s)
      else (case s of [] \<Rightarrow> [] | c # cs \<Rightarrow> c # replace_Key_dot cs))"
  by pat_completeness auto
termination
proof (relation "measure length")
  show "wf (measure (length :: string \<Rightarrow> nat))" by simp
next
  fix s :: string
  assume a: "take 4 s = ''Key.''"
  have "length (take 4 s) = 4" by (simp add: a)
  then have "4 \<le> length s" by simp
  then show "(drop 4 s, s) \<in> measure length" by simp
next
  fix s :: string and c cs
  assume "s = c # cs"
  then show "(cs, s) \<in> measure length" by simp
qed

declare replace_Key_dot.simps [simp del]

text \<open>\<^verbatim>\<open>key.char if hasattr(key, 'char') else str(key).replace('Key.', '')\<close>;
  the result is \<open>None\<close> when \<^verbatim>\<open>key.char\<close> is \<^verbatim>\<open>None\<close>.\<close>

fun key_str :: "key \<Rightarrow> string option" where
  "key_str (KeyCode c) = c"
| "key_str (Key name) = Some (replace_Key_dot (''Key.'' @ name))"
| "key_str NoKey = Some (replace_Key_dot ''None'')"

text \<open>What an f-string shows for the value of \<^verbatim>\<open>key_str\<close>.\<close>

definition shown :: "string option \<Rightarrow> string" where
  "shown ks = (case ks of None \<Rightarrow> ''None'' | Some s \<Rightarrow> s)"

section \<open>Metrics\<close>

record Metrics =
  input_counts :: "int dict"
  last_updated :: "string option"

text \<open>
  \<^verbatim>\<open>Metrics.__str__\<close> interpolates five values into its text: the three mouse counts
  (\<^verbatim>\<open>get(..., 0)\<close>), the sum of the counts of every key whose name does not start with
  \<^verbatim>\<open>mouse_\<close>, and \<^verbatim>\<open>last_updated\<close>. The record holds these five values.
\<close>

record summary =
  clicks_L :: int
  clicks_R :: int
  clicks_M :: int
  total_key_presses :: int
  shown_last_updated :: "string option"

definition startswith :: "string \<Rightarrow> string \<Rightarrow> bool" where
  "startswith s p = (take (length p) s = p)"

definition Metrics_str :: "Metrics \<Rightarrow> summary" where
  "Metrics_str self =
     \<lparr>clicks_L = dict_get (input_counts self) ''mouse_left'' 0,
      clicks_R = dict_get (input_counts self) ''mouse_right'' 0,
      clicks_M = dict_get (input_counts self) ''mouse_middle'' 0,
      total_key_presses =
        sum_list (map snd (filter (\<lambda>(key, count). \<not> startswith key ''mouse_'')
                                  (input_counts self))),
      shown_last_updated = last_updated self\<rparr>"

section \<open>The durable store\<close>

text \<open>
  Table \<^verbatim>\<open>key_presses\<close>: \<^verbatim>\<open>input_name\<close> is the primary key, so the rows form a
  dictionary from the name to \<^verbatim>\<open>(press_count, last_updated)\<close>. The store is \<open>None\<close>
  while the table does not exist. The database engine and the connection are outside the
  program: which step of a call fails, if any, and the clock are parameters.
\<close>

type_synonym row = "int \<times> string"
type_synonym table = "row dict"
type_synonym store = "table option"

datatype fault = NoFault | ConnectFails | ExecuteFails | CommitFails | QueryFails

datatype error = DatabaseError | UndefinedTable | KeyError string

datatype message =
    Unknown_key string
  | Stopping_program
  | Total_metrics summary
  | Previous_data summary
  | Current_Input_Counts "(string \<times> int \<times> string) list"

datatype effect = Printed message | Committed "int dict" string

text \<open>\<^verbatim>\<open>CREATE TABLE IF NOT EXISTS key_presses\<close>\<close>

definition create_table :: "store \<Rightarrow> store" where
  "create_table st = (case st of None \<Rightarrow> Some [] | Some t \<Rightarrow> Some t)"

text \<open>\<^verbatim>\<open>Database.setup_database\<close> (input-tracker.py): connect, create, commit.\<close>

definition Database_setup_database :: "fault \<Rightarrow> store \<Rightarrow> error + store" where
  "Database_setup_database f st =
     (if f = ConnectFails then Inl DatabaseError
      else if f = ExecuteFails then Inl DatabaseError
      else if f = CommitFails then Inl DatabaseError
      else Inr (create_table st))"

text \<open>\<^verbatim>\<open>INSERT ... VALUES (name, 0, NOW()) ON CONFLICT (input_name) DO NOTHING\<close>\<close>

definition insert_do_nothing :: "string \<Rightarrow> row \<Rightarrow> table \<Rightarrow> table" where
  "insert_do_nothing name r t = (if dict_in name t then t else t @ [(name, r)])"

text \<open>\<^verbatim>\<open>_initialize_inputs\<close>, the same in both files: one insert for each member of
  \<^verbatim>\<open>ALL_INPUTS\<close> on the open cursor, then commit. \<open>now\<close> is the database's \<^verbatim>\<open>NOW()\<close>.\<close>

definition Database_initialize_inputs :: "fault \<Rightarrow> string \<Rightarrow> store \<Rightarrow> error + store" where
  "Database_initialize_inputs f now st =
     (if f = ExecuteFails then Inl DatabaseError
      else (case st of
              None \<Rightarrow> Inl UndefinedTable
            | Some t \<Rightarrow>
                if f = CommitFails then Inl DatabaseError
                else Inr (Some (fold (\<lambda>name. insert_do_nothing name (0, now)) ALL_INPUTS t))))"

definition DatabaseManager_initialize_inputs :: "fault \<Rightarrow> string \<Rightarrow> store \<Rightarrow> error + store" where
  "DatabaseManager_initialize_inputs = Database_initialize_inputs"

text \<open>\<^verbatim>\<open>DatabaseManager.setup_database\<close> (metric-collector.py): connect,
  \<^verbatim>\<open>_create_tables\<close> (create, commit), \<^verbatim>\<open>_initialize_inputs\<close>, disconnect.\<close>

definition DatabaseManager_setup_database :: "fault \<Rightarrow> string \<Rightarrow> store \<Rightarrow> error + store" where
  "DatabaseManager_setup_database f now st =
     (if f = ConnectFails then Inl DatabaseError
      else if f = ExecuteFails then Inl DatabaseError
      else if f = CommitFails then Inl DatabaseError
      else DatabaseManager_initialize_inputs f now (create_table st))"

text \<open>\<^verbatim>\<open>load_data\<close> / \<^verbatim>\<open>load_previous_data\<close>: connect, select name and count of every row,
  build the dictionary \<^verbatim>\<open>{row[0]: row[1] for row in fetchall()}\<close>, disconnect.\<close>

definition Database_load_data :: "fault \<Rightarrow> store \<Rightarrow> error + int dict" where
  "Database_load_data f st =
     (if f = ConnectFails then Inl DatabaseError
      else if f = QueryFails then Inl DatabaseError
      else (case st of
              None \<Rightarrow> Inl UndefinedTable
            | Some t \<Rightarrow> Inr (dict_of (map (\<lambda>(name, count, ts). (name, count)) t))))"

definition DatabaseManager_load_previous_data :: "fault \<Rightarrow> store \<Rightarrow> error + int dict" where
  "DatabaseManager_load_previous_data = Database_load_data"

text \<open>\<^verbatim>\<open>_print_current_counts\<close>: the rows with a positive count, by count descending.
  SQL leaves the order of equal counts open; here they keep the order of the table.\<close>

definition current_counts :: "table \<Rightarrow> (string \<times> int \<times> string) list" where
  "current_counts t =
     sort_key (\<lambda>(name, count, ts). - count) (filter (\<lambda>(name, count, ts). count > 0) t)"

text \<open>\<^verbatim>\<open>INSERT ... ON CONFLICT (input_name) DO UPDATE SET press_count, last_updated\<close>
  for every item of the dictionary, in one transaction.\<close>

definition upsert_all :: "int dict \<Rightarrow> string \<Rightarrow> table \<Rightarrow> table" where
  "upsert_all items now t = fold (\<lambda>(name, count). AList.update name (count, now)) items t"

text \<open>
  \<^verbatim>\<open>save_data\<close> / \<^verbatim>\<open>save_metrics\<close> (the same in both files): connect; set
  \<^verbatim>\<open>last_updated\<close> of the metrics object to the current time; upsert every item of
  \<^verbatim>\<open>input_counts\<close>; commit; print the current counts; disconnect. Nothing is caught: the
  first failing step raises, and rows written before a commit that did not happen are not in
  the store. The result is the metrics object, the store, what was committed and printed,
  and the exception if one was raised.
\<close>

definition Database_save_data ::
  "fault \<Rightarrow> string \<Rightarrow> Metrics \<Rightarrow> store \<Rightarrow> Metrics \<times> store \<times> effect list \<times> error option" where
  "Database_save_data f now data st =
     (if f = ConnectFails then (data, st, [], Some DatabaseError)
      else
        (let data' = data\<lparr>last_updated := Some now\<rparr>; items = input_counts data' in
         if items \<noteq> [] \<and> f = ExecuteFails then (data', st, [], Some DatabaseError)
         else if items \<noteq> [] \<and> st = None then (data', st, [], Some UndefinedTable)
         else if f = CommitFails then (data', st, [], Some DatabaseError)
         else
           (let st' = map_option (upsert_all items now) st in
            if f = QueryFails then (data', st', [Committed items now], Some DatabaseError)
            else (case st' of
                    None \<Rightarrow> (data', st', [Committed items now], Some UndefinedTable)
                  | Some t \<Rightarrow>
                      (data', st',
                       [Committed items now, Printed (Current_Input_Counts (current_counts t))],
                       None)))))"

definition DatabaseManager_save_metrics ::
  "fault \<Rightarrow> string \<Rightarrow> Metrics \<Rightarrow> store \<Rightarrow> Metrics \<times> store \<times> effect list \<times> error option" where
  "DatabaseManager_save_metrics = Database_save_data"


section \<open>The running process\<close>

text \<open>
  The metrics object and the store are shared by the listener callbacks and by the saving
  thread. A process is the pair of them, the effects so far in the order they happened,
  and whether the saving thread is still alive (an exception raised in its loop, which
  catches nothing, ends it).
\<close>

record process =
  proc_metrics :: Metrics
  proc_store :: store
  proc_trace :: "effect list"
  proc_saver_alive :: bool

datatype outcome = Continue | Exit int | Raise error

text \<open>\<^verbatim>\<open>metrics.input_counts[name] += 1\<close>: a \<^verbatim>\<open>KeyError\<close> when the key is missing.\<close>

definition increment :: "string \<Rightarrow> process \<Rightarrow> process \<times> outcome" where
  "increment name p =
     (case map_of (input_counts (proc_metrics p)) name of
        None \<Rightarrow> (p, Raise (KeyError name))
      | Some c \<Rightarrow>
          (p\<lparr>proc_metrics := (proc_metrics p)
                \<lparr>input_counts := AList.update name (c + 1) (input_counts (proc_metrics p))\<rparr>\<rparr>,
           Continue))"

definition emit :: "effect list \<Rightarrow> process \<Rightarrow> process" where
  "emit es p = p\<lparr>proc_trace := proc_trace p @ es\<rparr>"

text \<open>The first statement of both key handlers: count the key when its string is a key of
  \<^verbatim>\<open>input_counts\<close>. \<^verbatim>\<open>None in d\<close> is false.\<close>

definition count_key :: "key \<Rightarrow> process \<Rightarrow> process option" where
  "count_key key p =
     (case key_str key of
        None \<Rightarrow> None
      | Some s \<Rightarrow>
          (case map_of (input_counts (proc_metrics p)) s of
             None \<Rightarrow> None
           | Some c \<Rightarrow> Some (fst (increment s p))))"

text \<open>The branch \<^verbatim>\<open>if key == keyboard.Key.esc\<close> of both key handlers: two prints, the
  final save, \<^verbatim>\<open>os._exit(0)\<close>. When the save raises, the exit is not reached.\<close>

definition stop_program :: "fault \<Rightarrow> string \<Rightarrow> process \<Rightarrow> process \<times> outcome" where
  "stop_program f now p =
     (let p1 = emit [Printed Stopping_program,
                     Printed (Total_metrics (Metrics_str (proc_metrics p)))] p
      in (case Database_save_data f now (proc_metrics p1) (proc_store p1) of
            (m, st, es, err) \<Rightarrow>
              (let p2 = emit es (p1\<lparr>proc_metrics := m, proc_store := st\<rparr>)
               in (case err of None \<Rightarrow> (p2, Exit 0) | Some e \<Rightarrow> (p2, Raise e)))))"

text \<open>\<^verbatim>\<open>on_press\<close> of input-tracker.py.\<close>

definition on_press :: "fault \<Rightarrow> string \<Rightarrow> key \<Rightarrow> process \<Rightarrow> process \<times> outcome" where
  "on_press f now key p =
     (let p1 = (case count_key key p of
                  Some p' \<Rightarrow> p'
                | None \<Rightarrow> emit [Printed (Unknown_key (shown (key_str key)))] p)
      in if key = Key ''esc'' then stop_program f now p1 else (p1, Continue))"

text \<open>\<^verbatim>\<open>InputTracker._on_key_press\<close> of metric-collector.py: no \<^verbatim>\<open>else\<close> branch.\<close>

definition InputTracker_on_key_press ::
  "fault \<Rightarrow> string \<Rightarrow> key \<Rightarrow> process \<Rightarrow> process \<times> outcome" where
  "InputTracker_on_key_press f now key p =
     (let p1 = (case count_key key p of Some p' \<Rightarrow> p' | None \<Rightarrow> p)
      in if key = Key ''esc'' then stop_program f now p1 else (p1, Continue))"

text \<open>\<^verbatim>\<open>on_click\<close> / \<^verbatim>\<open>InputTracker._on_click\<close>, the same in both files.\<close>

definition on_click :: "button \<Rightarrow> bool \<Rightarrow> process \<Rightarrow> process \<times> outcome" where
  "on_click button pressed p =
     (if pressed then
        (if button = Button_left then increment ''mouse_left'' p
         else if button = Button_right then increment ''mouse_right'' p
         else if button = Button_middle then increment ''mouse_middle'' p
         else (p, Continue))
      else (p, Continue))"

text \<open>One turn of the loop of the saving thread (\<^verbatim>\<open>save_metrics\<close> in \<^verbatim>\<open>main\<close>,
  \<^verbatim>\<open>_start_save_data\<close>), after the sleep. The process goes on when the save raises; the
  thread does not.\<close>

definition save_tick :: "fault \<Rightarrow> string \<Rightarrow> process \<Rightarrow> process" where
  "save_tick f now p =
     (if proc_saver_alive p then
        (case Database_save_data f now (proc_metrics p) (proc_store p) of
           (m, st, es, err) \<Rightarrow>
             emit es (p\<lparr>proc_metrics := m, proc_store := st, proc_saver_alive := (err = None)\<rparr>))
      else p)"

text \<open>
  The two programs differ in the key handler and in the startup. An event comes with the
  environment of the moment: the fault of the store, if any, and the clock. In a run each
  event is handled as a whole; the turns of the loop of a save interleaved with the handlers
  are modelled in a section of their own.
\<close>

datatype program = Input_tracker | Metric_collector

datatype event = KeyPress key | Click button bool | Tick

fun step :: "program \<Rightarrow> event \<times> fault \<times> string \<Rightarrow> process \<Rightarrow> process \<times> outcome" where
  "step Input_tracker (KeyPress key, f, now) p = on_press f now key p"
| "step Metric_collector (KeyPress key, f, now) p = InputTracker_on_key_press f now key p"
| "step prog (Click button pressed, f, now) p = on_click button pressed p"
| "step prog (Tick, f, now) p = (save_tick f now p, Continue)"

text \<open>
  The events are handled, in order, until a handler exits the process. An exception that
  leaves a callback ends at most the thread of its listener; nothing in the source ends the
  process then, and the other listener and the saving thread go on. What the input library
  does with the listener whose callback raised is outside the source: the list holds the
  events that are delivered to a handler, so a listener that has stopped is a list with no
  later event of its kind.
\<close>

fun run :: "program \<Rightarrow> (event \<times> fault \<times> string) list \<Rightarrow> process \<Rightarrow> process \<times> outcome" where
  "run prog [] p = (p, Continue)"
| "run prog (e # es) p =
     (case step prog e p of
        (p', Continue) \<Rightarrow> run prog es p'
      | (p', Exit n) \<Rightarrow> (p', Exit n)
      | (p', Raise err) \<Rightarrow> run prog es p')"

section \<open>The save loop interleaved with the handlers\<close>

text \<open>
  \<^verbatim>\<open>save_data\<close> and \<^verbatim>\<open>save_metrics\<close> take no lock and make no copy: the loop
  \<^verbatim>\<open>for input_name, press_count in data.input_counts.items()\<close> iterates over the live
  dictionary, and each turn sends the upsert of the item the iterator stands at, with the
  count the item has at that moment. The handlers run in other threads, so an increment
  \<^verbatim>\<open>input_counts[name] += 1\<close> can be handled between two turns. No handler adds or removes a
  key, so the position of the iterator is the number of rows sent so far. An increment is
  taken as one step. A state is the process and the rows sent by the save in progress.
\<close>

datatype thread_step = Loop_turn | Handler_increment string

fun interleaved_step :: "thread_step \<Rightarrow> process \<times> int dict \<Rightarrow> process \<times> int dict" where
  "interleaved_step Loop_turn (p, sent) =
     (if length sent < length (input_counts (proc_metrics p))
      then (p, sent @ [input_counts (proc_metrics p) ! length sent])
      else (p, sent))"
| "interleaved_step (Handler_increment name) (p, sent) = (fst (increment name p), sent)"

definition interleaved :: "thread_step list \<Rightarrow> process \<times> int dict \<Rightarrow> process \<times> int dict" where
  "interleaved steps s = fold interleaved_step steps s"

text \<open>The counter table at every moment of an interleaving, from its start to its end.\<close>

fun tables_during :: "thread_step list \<Rightarrow> process \<times> int dict \<Rightarrow> int dict list" where
  "tables_during [] s = [input_counts (proc_metrics (fst s))]"
| "tables_during (a # rest) s =
     input_counts (proc_metrics (fst s)) # tables_during rest (interleaved_step a s)"

section \<open>Startup\<close>

text \<open>\<^verbatim>\<open>{key: 0 for key in ALL_INPUTS}\<close>\<close>

definition initial_counts :: "int dict" where
  "initial_counts = dict_of (map (\<lambda>key. (key, 0)) ALL_INPUTS)"

text \<open>\<^verbatim>\<open>main\<close> of input-tracker.py up to the start of the threads: the metrics object,
  \<^verbatim>\<open>setup_database\<close>, \<^verbatim>\<open>_initialize_inputs\<close>, \<^verbatim>\<open>load_data\<close>,
  \<^verbatim>\<open>input_counts.update(previous_data)\<close>.\<close>

definition main_startup :: "fault \<Rightarrow> string \<Rightarrow> store \<Rightarrow> error + process" where
  "main_startup f now st =
     (case Database_setup_database f st of
        Inl e \<Rightarrow> Inl e
      | Inr st1 \<Rightarrow>
          (case Database_initialize_inputs f now st1 of
             Inl e \<Rightarrow> Inl e
           | Inr st2 \<Rightarrow>
               (case Database_load_data f st2 of
                  Inl e \<Rightarrow> Inl e
                | Inr previous_data \<Rightarrow>
                    Inr \<lparr>proc_metrics =
                           \<lparr>input_counts = dict_update initial_counts previous_data,
                            last_updated = None\<rparr>,
                         proc_store = st2, proc_trace = [], proc_saver_alive = True\<rparr>)))"

text \<open>\<^verbatim>\<open>InputTracker.__init__\<close> and \<^verbatim>\<open>InputTracker.setup\<close> of metric-collector.py.\<close>

definition InputTracker_setup :: "fault \<Rightarrow> string \<Rightarrow> store \<Rightarrow> error + process" where
  "InputTracker_setup f now st =
     (case DatabaseManager_setup_database f now st of
        Inl e \<Rightarrow> Inl e
      | Inr st1 \<Rightarrow>
          (case DatabaseManager_load_previous_data f st1 of
             Inl e \<Rightarrow> Inl e
           | Inr previous_data \<Rightarrow>
               (let m = \<lparr>input_counts = dict_update initial_counts previous_data,
                         last_updated = None\<rparr>
                in Inr \<lparr>proc_metrics = m, proc_store = st1,
                        proc_trace = [Printed (Previous_data (Metrics_str m))],
                        proc_saver_alive = True\<rparr>)))"

fun startup :: "program \<Rightarrow> fault \<Rightarrow> string \<Rightarrow> store \<Rightarrow> error + process" where
  "startup Input_tracker f now st = main_startup f now st"
| "startup Metric_collector f now st = InputTracker_setup f now st"

section \<open>Observations\<close>

text \<open>The rows of the store; none while the table does not exist.\<close>

definition rows :: "store \<Rightarrow> table" where
  "rows st = (case st of None \<Rightarrow> [] | Some t \<Rightarrow> t)"

text \<open>The counter of a name in the running process.\<close>

definition count_of :: "process \<Rightarrow> string \<Rightarrow> int option" where
  "count_of p name = map_of (input_counts (proc_metrics p)) name"

text \<open>The session summaries printed and the snapshots committed, each in order.\<close>

fun session_summaries :: "effect list \<Rightarrow> summary list" where
  "session_summaries [] = []"
| "session_summaries (Printed (Total_metrics s) # es) = s # session_summaries es"
| "session_summaries (e # es) = session_summaries es"

fun commits :: "effect list \<Rightarrow> (int dict \<times> string) list" where
  "commits [] = []"
| "commits (Committed items now # es) = (items, now) # commits es"
| "commits (e # es) = commits es"

text \<open>What an effect is, for statements about the order of effects.\<close>

datatype kind = Summary | Commit | Diagnostic | Other

fun kind_of :: "effect \<Rightarrow> kind" where
  "kind_of (Printed (Total_metrics s)) = Summary"
| "kind_of (Printed (Unknown_key k)) = Diagnostic"
| "kind_of (Printed m) = Other"
| "kind_of (Committed items now) = Commit"




text \<open>The counter table and the rows of the store are dictionaries, and the table covers
  the store: every row has a counter, not below the row's count.\<close>

definition covers :: "process \<Rightarrow> bool" where
  "covers p =
     (dict_wf (input_counts (proc_metrics p)) \<and>
      dict_wf (rows (proc_store p)) \<and>
      list_all (\<lambda>(name, count, ts).
                  case count_of p name of None \<Rightarrow> False | Some c \<Rightarrow> count \<le> c)
               (rows (proc_store p)))"

text \<open>The scenario of the specification: three presses of \<^verbatim>\<open>a\<close>, two left clicks, one
  press of escape; nothing fails.\<close>

definition scenario :: "(event \<times> fault \<times> string) list" where
  "scenario =
     [(KeyPress (KeyCode (Some ''a'')), NoFault, ''t1''),
      (KeyPress (KeyCode (Some ''a'')), NoFault, ''t2''),
      (KeyPress (KeyCode (Some ''a'')), NoFault, ''t3''),
      (Click Button_left True, NoFault, ''t4''),
      (Click Button_left True, NoFault, ''t5''),
      (KeyPress (Key ''esc''), NoFault, ''t6'')]"

text \<open>The process after a startup at time \<^verbatim>\<open>t0\<close> in which nothing fails; \<open>fresh\<close> is
  the one on a store with no table.\<close>

definition started :: "program \<Rightarrow> store \<Rightarrow> process" where
  "started prog st = projr (startup prog NoFault ''t0'' st)"

definition fresh :: "program \<Rightarrow> process" where
  "fresh prog = started prog None"

text \<open>A save of the 113 counters of the vocabulary during which two keys are pressed: after
  the first turn of its loop, \<^verbatim>\<open>shift\<close> and then \<^verbatim>\<open>shift_r\<close>.\<close>

definition torn_schedule :: "thread_step list" where
  "torn_schedule =
     Loop_turn # Handler_increment ''shift'' # Handler_increment ''shift_r''
       # replicate 112 Loop_turn"

section \<open>Properties\<close>

subsection \<open>Dictionaries, the store and the vocabulary\<close>

lemma distinct_ALL_INPUTS: "distinct ALL_INPUTS"
  unfolding ALL_INPUTS_def SPECIAL_KEYS_def REGULAR_KEYS_def MOUSE_BUTTONS_def
  by simp


lemma update_fresh: "k \<notin> fst ` set d \<Longrightarrow> AList.update k v d = d @ [(k, v)]"
  by (induction d) auto

lemma fold_update_distinct:
  "distinct (map fst d @ map fst xs) \<Longrightarrow> fold (\<lambda>(k, v). AList.update k (g v)) xs d = d @ map (\<lambda>(k, v). (k, g v)) xs"
proof (induction xs arbitrary: d)
  case Nil
  then show ?case by simp
next
  case (Cons x xs)
  obtain k v where x: "x = (k, v)" by (cases x)
  from Cons.prems have fresh: "k \<notin> fst ` set d" by (auto simp: x)
  from Cons.prems have "distinct (map fst (d @ [(k, g v)]) @ map fst xs)" by (simp add: x)
  from Cons.IH [OF this] show ?case
    by (simp add: x update_fresh [OF fresh])
qed

lemma map_of_fold_update:
  "map_of (fold (\<lambda>(k, v). AList.update k (g v)) xs d) = map_of d ++ map_of (rev (map (\<lambda>(k, v). (k, g v)) xs))"
proof (induction xs arbitrary: d)
  case Nil
  then show ?case by simp
next
  case (Cons x xs)
  obtain k v where x: "x = (k, v)" by (cases x)
  show ?case
    by (rule ext) (simp add: x Cons.IH update_conv map_add_def split: option.splits)
qed

lemma dict_of_distinct: "distinct (map fst xs) \<Longrightarrow> dict_of xs = xs"
  using fold_update_distinct [of "[]" xs "\<lambda>v. v"]
  by (simp add: dict_of_def dict_update_def)

lemma upsert_all_empty:
  "distinct (map fst items) \<Longrightarrow> upsert_all items now [] = map (\<lambda>(name, count). (name, (count, now))) items"
  using fold_update_distinct [of "[]" items "\<lambda>c. (c, now)"]
  by (simp add: upsert_all_def)

lemma load_upsert_all_empty:
  "distinct (map fst items) \<Longrightarrow>
   dict_of (map (\<lambda>(name, count, ts). (name, count)) (upsert_all items now [])) = items"
proof -
  assume d: "distinct (map fst items)"
  have "map (\<lambda>(name, count, ts). (name, count)) (upsert_all items now []) = items"
    unfolding upsert_all_empty [OF d] by (induction items) auto
  then show ?thesis by (simp add: dict_of_distinct [OF d])
qed


lemma map_of_rev_distinct: "distinct (map fst xs) \<Longrightarrow> map_of (rev xs) = map_of xs"
proof (induction xs)
  case Nil
  then show ?case by simp
next
  case (Cons x xs)
  obtain k v where x: "x = (k, v)" by (cases x)
  from Cons.prems have fresh: "map_of xs k = None"
    by (simp add: x map_of_eq_None_iff)
  from Cons have ih: "map_of (rev xs) = map_of xs" by simp
  show ?case
    using fresh by (auto simp: x ih map_add_def fun_eq_iff split: option.splits)
qed

lemma map_of_dict_update:
  "map_of (dict_update d other) = map_of d ++ map_of (rev other)"
  using map_of_fold_update [of "\<lambda>v. v" other d]
  by (simp add: dict_update_def)

lemma dict_wf_fold_update:
  "distinct (map fst d) \<Longrightarrow> distinct (map fst (fold (\<lambda>(k, v). AList.update k (g v)) xs d))"
proof (induction xs arbitrary: d)
  case Nil
  then show ?case by simp
next
  case (Cons x xs)
  then show ?case by (cases x) (simp add: distinct_update)
qed

lemma dict_wf_dict_update: "dict_wf d \<Longrightarrow> dict_wf (dict_update d other)"
  using dict_wf_fold_update [of d "\<lambda>v. v" other]
  by (simp add: dict_wf_def dict_update_def)

lemma map_of_insert_do_nothing:
  "map_of (insert_do_nothing name r t) k =
     (case map_of t k of Some x \<Rightarrow> Some x | None \<Rightarrow> if k = name then Some r else None)"
  by (auto simp: insert_do_nothing_def dict_in_def map_add_def split: option.splits)

lemma map_of_initialize:
  "map_of (fold (\<lambda>name. insert_do_nothing name r) ns t) k =
     (case map_of t k of Some x \<Rightarrow> Some x | None \<Rightarrow> if k \<in> set ns then Some r else None)"
proof (induction ns arbitrary: t)
  case Nil
  then show ?case by (simp split: option.splits)
next
  case (Cons n ns)
  show ?case
    by (simp add: Cons.IH map_of_insert_do_nothing split: option.splits)
qed

lemma initialize_present:
  "\<forall>n \<in> set ns. dict_in n t \<Longrightarrow> fold (\<lambda>name. insert_do_nothing name r) ns t = t"
  by (induction ns) (simp_all add: insert_do_nothing_def)

lemma dict_in_initialize:
  "n \<in> set ns \<Longrightarrow> dict_in n (fold (\<lambda>name. insert_do_nothing name r) ns t)"
  by (simp add: dict_in_def map_of_initialize split: option.splits)

lemma initialize_twice:
  "fold (\<lambda>name. insert_do_nothing name r') ns (fold (\<lambda>name. insert_do_nothing name r) ns t)
     = fold (\<lambda>name. insert_do_nothing name r) ns t"
  by (rule initialize_present) (simp add: dict_in_initialize)

lemma dict_wf_insert_do_nothing: "dict_wf t \<Longrightarrow> dict_wf (insert_do_nothing name r t)"
  by (auto simp: insert_do_nothing_def dict_in_def dict_wf_def map_of_eq_None_iff)

lemma dict_wf_initialize:
  "dict_wf t \<Longrightarrow> dict_wf (fold (\<lambda>name. insert_do_nothing name r) ns t)"
  by (induction ns arbitrary: t) (simp_all add: dict_wf_insert_do_nothing)

lemma map_of_initial_counts:
  "map_of initial_counts name = (if name \<in> set ALL_INPUTS then Some 0 else None)"
proof -
  have d: "distinct (map fst (map (\<lambda>key. (key, 0::int)) ALL_INPUTS))"
    by (simp add: comp_def distinct_ALL_INPUTS)
  have "map_of (map (\<lambda>key. (key, 0::int)) ks) name
          = (if name \<in> set ks then Some 0 else None)" for ks
    by (induction ks) auto
  then show ?thesis by (simp add: initial_counts_def dict_of_distinct [OF d])
qed

lemma dict_wf_initial_counts: "dict_wf initial_counts"
proof -
  have d: "distinct (map fst (map (\<lambda>key. (key, 0::int)) ALL_INPUTS))"
    by (simp add: comp_def distinct_ALL_INPUTS)
  show ?thesis
    using d by (simp add: initial_counts_def dict_of_distinct [OF d] dict_wf_def)
qed

lemma map_of_loaded:
  assumes "dict_wf t"
  shows "map_of (dict_update initial_counts (dict_of (map (\<lambda>(name, count, ts). (name, count)) t))) name
         = (case map_of t name of
              Some (c, ts) \<Rightarrow> Some c
            | None \<Rightarrow> if name \<in> set ALL_INPUTS then Some 0 else None)"
proof -
  let ?prev = "map (\<lambda>(name, count, ts). (name, count)) t"
  have keys: "map fst ?prev = map fst t" by (induction t) auto
  have d: "distinct (map fst ?prev)" using assms by (simp only: keys dict_wf_def)
  have look: "map_of ?prev name = map_option fst (map_of t name)"
    by (induction t) auto
  show ?thesis
    by (simp add: map_of_dict_update dict_of_distinct [OF d] map_of_rev_distinct [OF d]
        map_add_def look map_of_initial_counts split: option.splits)
qed

subsection \<open>Key resolution, handlers and startup\<close>


lemma replace_Key_dot_no_K: "CHR ''K'' \<notin> set s \<Longrightarrow> replace_Key_dot s = s"
proof (induction s)
  case Nil
  show ?case by (subst replace_Key_dot.simps) simp
next
  case (Cons c cs)
  then have nk: "c \<noteq> CHR ''K''" and ih: "replace_Key_dot cs = cs" by auto
  show ?case using nk ih by (subst replace_Key_dot.simps) simp
qed

lemma replace_Key_dot_prefix:
  "replace_Key_dot (CHR ''K'' # CHR ''e'' # CHR ''y'' # CHR ''.'' # s) = replace_Key_dot s"
  by (subst replace_Key_dot.simps) simp

lemma key_str_Key: "CHR ''K'' \<notin> set name \<Longrightarrow> key_str (Key name) = Some name"
  by (simp add: replace_Key_dot_prefix replace_Key_dot_no_K)

lemma key_str_esc: "key_str (Key ''esc'') = Some ''esc''"
  by (simp add: replace_Key_dot_prefix replace_Key_dot_no_K)

lemma count_of_increment:
  "count_of (fst (increment name p)) k =
     (if k = name then map_option (\<lambda>c. c + 1) (count_of p name) else count_of p k)"
  by (simp add: increment_def count_of_def update_conv' split: option.splits)

lemma increment_other [simp]:
  "proc_store (fst (increment name p)) = proc_store p"
  "proc_trace (fst (increment name p)) = proc_trace p"
  "proc_saver_alive (fst (increment name p)) = proc_saver_alive p"
  "last_updated (proc_metrics (fst (increment name p))) = last_updated (proc_metrics p)"
  by (simp_all add: increment_def split: option.splits)

lemma increment_present:
  "count_of p name = Some c \<Longrightarrow> snd (increment name p) = Continue"
  by (simp add: increment_def count_of_def)

lemma dict_wf_increment:
  "dict_wf (input_counts (proc_metrics p)) \<Longrightarrow>
   dict_wf (input_counts (proc_metrics (fst (increment name p))))"
  by (simp add: increment_def dict_wf_def distinct_update split: option.splits)

lemma count_key_Some:
  "key_str key = Some name \<Longrightarrow> count_of p name = Some c \<Longrightarrow>
   count_key key p = Some (fst (increment name p))"
  by (simp add: count_key_def count_of_def)

lemma count_key_None:
  "key_str key = None \<or> (\<exists>name. key_str key = Some name \<and> count_of p name = None) \<Longrightarrow>
   count_key key p = None"
  by (auto simp: count_key_def count_of_def)

lemma step_press:
  assumes "key_str key = Some name" and "key \<noteq> Key ''esc''" and "count_of p name = Some c"
  shows "step prog (KeyPress key, f, now) p = (fst (increment name p), Continue)"
  using assms
  by (cases prog) (simp_all add: on_press_def InputTracker_on_key_press_def count_key_Some)

lemma step_stop:
  assumes "count_of p ''esc'' = Some c"
  shows "step prog (KeyPress (Key ''esc''), f, now) p = stop_program f now (fst (increment ''esc'' p))"
  using assms
  by (cases prog)
     (simp_all add: on_press_def InputTracker_on_key_press_def count_key_Some [OF key_str_esc])

lemma count_of_emit [simp]: "count_of (emit es p) = count_of p"
  by (simp add: emit_def count_of_def fun_eq_iff)

lemma count_of_stop_program: "count_of (fst (stop_program f now p)) name = count_of p name"
  by (simp add: stop_program_def Database_save_data_def Let_def count_of_def emit_def
      split: option.splits)

lemma snd_stop_program: "snd (stop_program f now p) \<noteq> Continue"
  by (simp add: stop_program_def Database_save_data_def Let_def split: option.splits)






lemma rows_simps [simp]: "rows None = []" "rows (Some t) = t"
  by (simp_all add: rows_def)

lemma create_table_rows: "create_table st = Some (rows st)"
  by (cases st) (simp_all add: create_table_def)

lemma startup_NoFault:
  "\<exists>p. startup prog NoFault now st = Inr p
     \<and> proc_store p = Some (fold (\<lambda>name. insert_do_nothing name (0, now)) ALL_INPUTS (rows st))
     \<and> input_counts (proc_metrics p) =
         dict_update initial_counts
           (dict_of (map (\<lambda>(name, count, ts). (name, count))
              (fold (\<lambda>name. insert_do_nothing name (0, now)) ALL_INPUTS (rows st))))
     \<and> last_updated (proc_metrics p) = None
     \<and> proc_saver_alive p
     \<and> commits (proc_trace p) = []
     \<and> session_summaries (proc_trace p) = []
     \<and> map kind_of (proc_trace p) = (case prog of Input_tracker \<Rightarrow> [] | Metric_collector \<Rightarrow> [Other])"
  by (cases prog)
     (simp_all add: main_startup_def InputTracker_setup_def Database_setup_database_def
        DatabaseManager_setup_database_def Database_initialize_inputs_def
        DatabaseManager_initialize_inputs_def Database_load_data_def
        DatabaseManager_load_previous_data_def create_table_rows Let_def)

lemma startup_counts:
  assumes "dict_wf (rows st)"
    and "startup prog NoFault now st = Inr p"
  shows "count_of p name =
           (case map_of (rows st) name of
              Some (c, ts) \<Rightarrow> Some c
            | None \<Rightarrow> if name \<in> set ALL_INPUTS then Some 0 else None)"
proof -
  let ?t = "fold (\<lambda>name. insert_do_nothing name (0, now)) ALL_INPUTS (rows st)"
  from startup_NoFault [of prog now st] assms(2)
  have ic: "input_counts (proc_metrics p) =
              dict_update initial_counts (dict_of (map (\<lambda>(name, count, ts). (name, count)) ?t))"
    by auto
  have wf: "dict_wf ?t" by (rule dict_wf_initialize [OF assms(1)])
  show ?thesis
    by (simp add: count_of_def ic map_of_loaded [OF wf] map_of_initialize split: option.splits)
qed

lemma startup_store:
  assumes "startup prog NoFault now st = Inr p"
  shows "\<exists>t. proc_store p = Some t
           \<and> (dict_wf (rows st) \<longrightarrow> dict_wf t)
           \<and> (\<forall>name. map_of t name =
                 (case map_of (rows st) name of
                    Some r \<Rightarrow> Some r
                  | None \<Rightarrow> if name \<in> set ALL_INPUTS then Some (0, now) else None))"
  using startup_NoFault [of prog now st] assms
  by (auto simp: map_of_initialize dict_wf_initialize)

lemma startup_dict_wf:
  assumes "startup prog NoFault now st = Inr p"
  shows "dict_wf (input_counts (proc_metrics p))"
  using startup_NoFault [of prog now st] assms
  by (auto simp: dict_wf_dict_update dict_wf_initial_counts)

lemma startup_started: "startup prog NoFault ''t0'' st = Inr (started prog st)"
  using startup_NoFault [of prog "''t0''" st] by (auto simp: started_def)

lemma in_ALL_INPUTS:
  "''a'' \<in> set ALL_INPUTS" "''esc'' \<in> set ALL_INPUTS" "''mouse_left'' \<in> set ALL_INPUTS"
  "''mouse_right'' \<in> set ALL_INPUTS" "''mouse_middle'' \<in> set ALL_INPUTS"
  by (simp_all add: ALL_INPUTS_def SPECIAL_KEYS_def REGULAR_KEYS_def MOUSE_BUTTONS_def)

lemma not_in_ALL_INPUTS:
  "''foo'' \<notin> set ALL_INPUTS" "''Q'' \<notin> set ALL_INPUTS"
  by (simp_all add: ALL_INPUTS_def SPECIAL_KEYS_def REGULAR_KEYS_def MOUSE_BUTTONS_def)

lemma count_of_fresh:
  "count_of (fresh prog) name = (if name \<in> set ALL_INPUTS then Some 0 else None)"
  using startup_counts [OF _ startup_started, of None prog name]
  by (simp add: fresh_def dict_wf_def)

lemma input_counts_stop_program:
  "input_counts (proc_metrics (fst (stop_program f now p))) = input_counts (proc_metrics p)"
  by (simp add: stop_program_def Database_save_data_def Let_def emit_def split: option.splits)

lemma Metrics_str_last_updated:
  "Metrics_str (m\<lparr>last_updated := x\<rparr>) = (Metrics_str m)\<lparr>shown_last_updated := x\<rparr>"
  by (simp add: Metrics_str_def)

lemma stop_program_NoFault:
  assumes "proc_store p = Some t"
  shows "stop_program NoFault now p =
           (p\<lparr>proc_metrics := (proc_metrics p)\<lparr>last_updated := Some now\<rparr>,
              proc_store := Some (upsert_all (input_counts (proc_metrics p)) now t),
              proc_trace := proc_trace p @
                [Printed Stopping_program,
                 Printed (Total_metrics (Metrics_str (proc_metrics p))),
                 Committed (input_counts (proc_metrics p)) now,
                 Printed (Current_Input_Counts
                   (current_counts (upsert_all (input_counts (proc_metrics p)) now t)))]\<rparr>,
            Exit 0)"
  using assms
  by (simp add: stop_program_def Database_save_data_def Let_def emit_def)

lemma stop_program_outcome:
  assumes "input_counts (proc_metrics p) \<noteq> []"
  shows "snd (stop_program f now p) =
           (if f = ConnectFails then Raise DatabaseError
            else if f = ExecuteFails then Raise DatabaseError
            else if proc_store p = None then Raise UndefinedTable
            else if f = CommitFails then Raise DatabaseError
            else if f = QueryFails then Raise DatabaseError
            else Exit 0)"
  using assms
  by (cases f; cases "proc_store p")
     (simp_all add: stop_program_def Database_save_data_def Let_def emit_def)

lemma stop_program_summaries:
  "session_summaries (proc_trace (fst (stop_program f now p)))
     = session_summaries (proc_trace p) @ [Metrics_str (proc_metrics p)]"
proof -
  have app: "session_summaries (xs @ ys) = session_summaries xs @ session_summaries ys" for xs ys
    by (induction xs rule: session_summaries.induct) simp_all
  show ?thesis
    by (simp add: stop_program_def Database_save_data_def Let_def emit_def app
        split: option.splits)
qed

lemma count_of_nonempty: "count_of p name = Some c \<Longrightarrow> input_counts (proc_metrics p) \<noteq> []"
  by (auto simp: count_of_def)

lemma run_exit:
  "snd (step prog e p) = Exit n \<Longrightarrow> run prog (e # rest) p = step prog e p"
  by (cases "step prog e p") simp

lemma stop_program_exits:
  assumes "proc_store p = Some t"
  shows "snd (stop_program NoFault now p) = Exit 0"
  by (simp add: stop_program_NoFault [OF assms])

lemma run_stop:
  assumes "count_of p ''esc'' = Some c" and "proc_store p = Some t"
  shows "run prog ((KeyPress (Key ''esc''), NoFault, now) # rest) p
           = step prog (KeyPress (Key ''esc''), NoFault, now) p"
proof (rule run_exit)
  have "proc_store (fst (increment ''esc'' p)) = Some t" using assms(2) by simp
  from stop_program_exits [OF this]
  show "snd (step prog (KeyPress (Key ''esc''), NoFault, now) p) = Exit 0"
    by (simp add: step_stop [OF assms(1)] del: step.simps)
qed

lemma fresh_store: "\<exists>t. proc_store (fresh prog) = Some t"
  using startup_store [OF startup_started, of prog None] by (auto simp: fresh_def)

lemma fresh_other:
  "last_updated (proc_metrics (fresh prog)) = None"
  "commits (proc_trace (fresh prog)) = []"
  "session_summaries (proc_trace (fresh prog)) = []"
  "map kind_of (proc_trace (fresh prog)) =
     (case prog of Input_tracker \<Rightarrow> [] | Metric_collector \<Rightarrow> [Other])"
  using startup_NoFault [of prog "''t0''" None]
  by (auto simp: fresh_def started_def)

subsection \<open>The stop key, the summary and the scenario\<close>


lemma sum_update:
  fixes d :: "('k \<times> int) list"
  shows "map_of d k = Some c \<Longrightarrow>
   sum_list (map snd (filter (\<lambda>(key, count). Q key) (AList.update k v d)))
     = sum_list (map snd (filter (\<lambda>(key, count). Q key) d)) + (if Q k then v - c else 0)"
  by (induction d) (auto split: if_splits)

lemma total_increment:
  "count_of p name \<noteq> None \<Longrightarrow>
   total_key_presses (Metrics_str (proc_metrics (fst (increment name p))))
     = total_key_presses (Metrics_str (proc_metrics p))
       + (if startswith name ''mouse_'' then 0 else 1)"
  using sum_update [of "input_counts (proc_metrics p)" name _ "\<lambda>key. \<not> startswith key ''mouse_''"]
  by (auto simp: increment_def count_of_def Metrics_str_def)

lemma clicks_count_of:
  "clicks_L (Metrics_str (proc_metrics p)) = (case count_of p ''mouse_left'' of None \<Rightarrow> 0 | Some v \<Rightarrow> v)"
  "clicks_R (Metrics_str (proc_metrics p)) = (case count_of p ''mouse_right'' of None \<Rightarrow> 0 | Some v \<Rightarrow> v)"
  "clicks_M (Metrics_str (proc_metrics p)) = (case count_of p ''mouse_middle'' of None \<Rightarrow> 0 | Some v \<Rightarrow> v)"
  "shown_last_updated (Metrics_str (proc_metrics p)) = last_updated (proc_metrics p)"
  by (simp_all add: Metrics_str_def dict_get_def count_of_def)

lemma sum_zero:
  "\<forall>(k, c) \<in> set d. c = (0::int) \<Longrightarrow> sum_list (map snd (filter P d)) = 0"
  by (induction d) auto

lemma total_fresh: "total_key_presses (Metrics_str (proc_metrics (fresh prog))) = 0"
proof -
  have wf: "dict_wf (input_counts (proc_metrics (fresh prog)))"
    using startup_dict_wf [OF startup_started, of prog None] by (simp add: fresh_def)
  have "c = 0" if "(k, c) \<in> set (input_counts (proc_metrics (fresh prog)))" for k c
  proof -
    from wf that have "count_of (fresh prog) k = Some c"
      by (simp add: count_of_def dict_wf_def)
    then show ?thesis by (simp add: count_of_fresh split: if_splits)
  qed
  then have "\<forall>(k, c) \<in> set (input_counts (proc_metrics (fresh prog))). c = 0" by auto
  from sum_zero [OF this] show ?thesis by (simp add: Metrics_str_def)
qed

lemma step_click:
  "step prog (Click Button_left True, f, now) p = increment ''mouse_left'' p"
  by (simp add: on_click_def)

lemma increment_eq:
  "count_of p name \<noteq> None \<Longrightarrow> increment name p = (fst (increment name p), Continue)"
  by (auto simp: increment_def count_of_def)

lemma summary_eqI:
  "clicks_L s = a \<Longrightarrow> clicks_R s = b \<Longrightarrow> clicks_M s = c \<Longrightarrow> total_key_presses s = d \<Longrightarrow>
   shown_last_updated s = e \<Longrightarrow>
   s = \<lparr>clicks_L = a, clicks_R = b, clicks_M = c, total_key_presses = d, shown_last_updated = e\<rparr>"
  by (cases s) simp

lemma scenario_run:
  "run prog scenario (fresh prog) =
     stop_program NoFault ''t6''
       (fst (increment ''esc''
         (fst (increment ''mouse_left''
           (fst (increment ''mouse_left''
             (fst (increment ''a''
               (fst (increment ''a''
                 (fst (increment ''a'' (fresh prog)))))))))))))"
proof -
  let ?p1 = "fst (increment ''a'' (fresh prog))"
  let ?p2 = "fst (increment ''a'' ?p1)"
  let ?p3 = "fst (increment ''a'' ?p2)"
  let ?p4 = "fst (increment ''mouse_left'' ?p3)"
  let ?p5 = "fst (increment ''mouse_left'' ?p4)"
  have k: "key_str (KeyCode (Some ''a'')) = Some ''a''" "KeyCode (Some ''a'') \<noteq> Key ''esc''"
    by simp_all
  have s1: "step prog (KeyPress (KeyCode (Some ''a'')), NoFault, ''t1'') (fresh prog) = (?p1, Continue)"
    by (rule step_press [OF k]) (simp add: count_of_fresh in_ALL_INPUTS)
  have s2: "step prog (KeyPress (KeyCode (Some ''a'')), NoFault, ''t2'') ?p1 = (?p2, Continue)"
    by (rule step_press [OF k]) (simp add: count_of_increment count_of_fresh in_ALL_INPUTS)
  have s3: "step prog (KeyPress (KeyCode (Some ''a'')), NoFault, ''t3'') ?p2 = (?p3, Continue)"
    by (rule step_press [OF k]) (simp add: count_of_increment count_of_fresh in_ALL_INPUTS)
  have s4: "step prog (Click Button_left True, NoFault, ''t4'') ?p3 = (?p4, Continue)"
    unfolding step_click
    by (rule increment_eq) (simp add: count_of_increment count_of_fresh in_ALL_INPUTS)
  have s5: "step prog (Click Button_left True, NoFault, ''t5'') ?p4 = (?p5, Continue)"
    unfolding step_click
    by (rule increment_eq) (simp add: count_of_increment count_of_fresh in_ALL_INPUTS)
  have c5: "count_of ?p5 ''esc'' = Some 0"
    by (simp add: count_of_increment count_of_fresh in_ALL_INPUTS)
  have s6: "step prog (KeyPress (Key ''esc''), NoFault, ''t6'') ?p5
              = stop_program NoFault ''t6'' (fst (increment ''esc'' ?p5))"
    by (rule step_stop [OF c5])
  obtain t where "proc_store (fresh prog) = Some t" using fresh_store by blast
  then have "proc_store ?p5 = Some t" by simp
  from run_stop [OF c5 this, of prog "''t6''" "[]"]
  have r6: "run prog [(KeyPress (Key ''esc''), NoFault, ''t6'')] ?p5
              = stop_program NoFault ''t6'' (fst (increment ''esc'' ?p5))"
    by (simp only: s6)
  have cons: "run prog (e # es) q = run prog es q'" if "step prog e q = (q', Continue)"
    for e es q q' using that by simp
  show ?thesis
    unfolding scenario_def
    by (simp only: cons [OF s1] cons [OF s2] cons [OF s3] cons [OF s4] cons [OF s5] r6)
qed


lemma total_stop_program:
  "total_key_presses (Metrics_str (proc_metrics (fst (stop_program f now p))))
     = total_key_presses (Metrics_str (proc_metrics p))"
  by (simp add: Metrics_str_def input_counts_stop_program)

lemma session_summaries_append:
  "session_summaries (xs @ ys) = session_summaries xs @ session_summaries ys"
  by (induction xs rule: session_summaries.induct) simp_all

lemma commits_append: "commits (xs @ ys) = commits xs @ commits ys"
  by (induction xs rule: commits.induct) simp_all

lemma map_of_upsert_all:
  "map_of (upsert_all items now t) name =
     (case map_of (rev items) name of Some c \<Rightarrow> Some (c, now) | None \<Rightarrow> map_of t name)"
proof -
  have m: "map (\<lambda>(k, v). (k, v, now)) items = map (\<lambda>(k, v). (k, (\<lambda>c. (c, now)) v)) items"
    by simp
  have "map_of (rev (map (\<lambda>(k, v). (k, (\<lambda>c. (c, now)) v)) items)) name
          = map_option (\<lambda>c. (c, now)) (map_of (rev items) name)"
    by (simp add: rev_map map_of_map)
  then show ?thesis
    using map_of_fold_update [of "\<lambda>c. (c, now)" items t]
    by (simp add: upsert_all_def map_add_def split: option.splits)
qed

lemma stop_trace:
  assumes "proc_store p = Some t" and "count_of p ''esc'' = Some c"
  shows "\<exists>p'. step prog (KeyPress (Key ''esc''), NoFault, now) p = (p', Exit 0)
     \<and> (\<forall>name. count_of p' name = (if name = ''esc'' then Some (c + 1) else count_of p name))
     \<and> last_updated (proc_metrics p') = Some now
     \<and> proc_store p' = Some (upsert_all (input_counts (proc_metrics p')) now t)
     \<and> proc_trace p' = proc_trace p @
         [Printed Stopping_program,
          Printed (Total_metrics ((Metrics_str (proc_metrics p'))
                     \<lparr>shown_last_updated := last_updated (proc_metrics p)\<rparr>)),
          Committed (input_counts (proc_metrics p')) now,
          Printed (Current_Input_Counts
                     (current_counts (upsert_all (input_counts (proc_metrics p')) now t)))]"
proof -
  let ?p1 = "fst (increment ''esc'' p)"
  have st: "proc_store ?p1 = Some t" using assms(1) by simp
  have lu: "last_updated (proc_metrics ?p1) = last_updated (proc_metrics p)" by simp
  have ms: "(Metrics_str ((proc_metrics ?p1)\<lparr>last_updated := Some now\<rparr>))
              \<lparr>shown_last_updated := last_updated (proc_metrics p)\<rparr>
            = Metrics_str (proc_metrics ?p1)"
    by (simp add: Metrics_str_def)
  show ?thesis
    unfolding step_stop [OF assms(2)] stop_program_NoFault [OF st]
    using assms(2) ms
    by (simp add: count_of_def [abs_def] count_of_increment [unfolded count_of_def])
qed

lemma stop_kinds:
  "snd (step prog (KeyPress (Key ''esc''), NoFault, ''t1'') (fresh prog)) = Exit 0
   \<and> map kind_of (proc_trace (fst (step prog (KeyPress (Key ''esc''), NoFault, ''t1'') (fresh prog))))
       = (case prog of Input_tracker \<Rightarrow> [] | Metric_collector \<Rightarrow> [Other])
         @ [Other, Summary, Commit, Other]"
proof -
  obtain t where t: "proc_store (fresh prog) = Some t" using fresh_store by blast
  have c: "count_of (fresh prog) ''esc'' = Some 0" by (simp add: count_of_fresh in_ALL_INPUTS)
  from stop_trace [OF t c, of prog "''t1''"] show ?thesis
    by (auto simp: fresh_other simp del: step.simps)
qed

lemma scenario_final:
  "snd (run prog scenario (fresh prog)) = Exit 0
   \<and> session_summaries (proc_trace (fst (run prog scenario (fresh prog))))
       = [\<lparr>clicks_L = 2, clicks_R = 0, clicks_M = 0, total_key_presses = 4,
           shown_last_updated = None\<rparr>]
   \<and> commits (proc_trace (fst (run prog scenario (fresh prog))))
       = [(input_counts (proc_metrics (fst (run prog scenario (fresh prog)))), ''t6'')]
   \<and> (\<forall>name. count_of (fst (run prog scenario (fresh prog))) name
         = (if name = ''a'' then Some 3
            else if name = ''esc'' then Some 1
            else if name = ''mouse_left'' then Some 2
            else if name \<in> set ALL_INPUTS then Some 0 else None))
   \<and> (\<forall>name. map_of (rows (proc_store (fst (run prog scenario (fresh prog))))) name
         = map_option (\<lambda>c. (c, ''t6'')) (count_of (fst (run prog scenario (fresh prog))) name))"
proof -
  let ?p3 = "fst (increment ''a'' (fst (increment ''a'' (fst (increment ''a'' (fresh prog))))))"
  let ?p5 = "fst (increment ''mouse_left'' (fst (increment ''mouse_left'' ?p3)))"
  let ?p6 = "fst (increment ''esc'' ?p5)"
  obtain t where t: "proc_store (fresh prog) = Some t"
    and tm: "\<And>name. map_of t name = (if name \<in> set ALL_INPUTS then Some (0, ''t0'') else None)"
    using startup_store [OF startup_started, of prog None] by (auto simp: fresh_def)
  have st: "proc_store ?p6 = Some t" by (simp add: t)
  have wf: "dict_wf (input_counts (proc_metrics ?p6))"
    using startup_dict_wf [OF startup_started, of prog None]
    by (simp add: fresh_def dict_wf_increment)
  have cnt: "count_of ?p6 name
         = (if name = ''a'' then Some 3
            else if name = ''esc'' then Some 1
            else if name = ''mouse_left'' then Some 2
            else if name \<in> set ALL_INPUTS then Some 0 else None)" for name
    by (simp add: count_of_increment count_of_fresh in_ALL_INPUTS)
  have tot: "total_key_presses (Metrics_str (proc_metrics ?p6)) = 4"
    by (simp add: total_increment count_of_increment count_of_fresh in_ALL_INPUTS total_fresh
        startswith_def)
  have sm: "Metrics_str (proc_metrics ?p6)
              = \<lparr>clicks_L = 2, clicks_R = 0, clicks_M = 0, total_key_presses = 4,
                 shown_last_updated = None\<rparr>"
    by (rule summary_eqI) (simp_all add: clicks_count_of cnt tot fresh_other)
  have fin: "run prog scenario (fresh prog) = stop_program NoFault ''t6'' ?p6"
    by (rule scenario_run)
  have up: "map_of (upsert_all (input_counts (proc_metrics ?p6)) ''t6'' t) name
              = map_option (\<lambda>c. (c, ''t6'')) (count_of ?p6 name)" for name
    using wf cnt [of name]
    by (simp add: map_of_upsert_all map_of_rev_distinct dict_wf_def count_of_def tm
        split: option.splits if_splits)
  have c6: "count_of (fst (stop_program NoFault ''t6'' ?p6)) = count_of ?p6"
    by (simp add: fun_eq_iff count_of_stop_program)
  show ?thesis
    unfolding fin c6
    by (simp add: sm fresh_other cnt stop_program_NoFault [OF st]
        session_summaries_append commits_append up)
qed

subsection \<open>The counter table covers the store\<close>











lemma save_data_shape:
  "input_counts (fst (Database_save_data f now data st)) = input_counts data
   \<and> (fst (snd (Database_save_data f now data st)) = st
      \<or> (\<exists>t. st = Some t
             \<and> fst (snd (Database_save_data f now data st))
                 = Some (upsert_all (input_counts data) now t)))"
  by (cases st) (simp_all add: Database_save_data_def Let_def)

lemma covers_emit [simp]: "covers (emit es p) = covers p"
  by (simp add: covers_def emit_def count_of_def)

lemma emit_fields [simp]:
  "proc_store (emit es p) = proc_store p"
  "proc_metrics (emit es p) = proc_metrics p"
  by (simp_all add: emit_def)















subsection \<open>The identifiers of the counter table\<close>

lemma keys_increment:
  "map fst (input_counts (proc_metrics (fst (increment name p))))
     = map fst (input_counts (proc_metrics p))"
proof (cases "map_of (input_counts (proc_metrics p)) name")
  case None
  then show ?thesis by (simp add: increment_def)
next
  case (Some c)
  then have "name \<in> fst ` set (input_counts (proc_metrics p))"
    by (metis map_of_eq_None_iff option.distinct(1))
  then show ?thesis by (simp add: increment_def Some update_keys)
qed

lemma keys_count_key:
  "map fst (input_counts (proc_metrics (case count_key key p of Some p' \<Rightarrow> p' | None \<Rightarrow> emit es p)))
     = map fst (input_counts (proc_metrics p))"
  by (simp add: count_key_def keys_increment split: option.splits)

lemma keys_key_handlers:
  "map fst (input_counts (proc_metrics (fst (on_press f now key p))))
     = map fst (input_counts (proc_metrics p))"
  "map fst (input_counts (proc_metrics (fst (InputTracker_on_key_press f now key p))))
     = map fst (input_counts (proc_metrics p))"
proof -
  let ?p1 = "case count_key key p of Some p' \<Rightarrow> p'
             | None \<Rightarrow> emit [Printed (Unknown_key (shown (key_str key)))] p"
  let ?p2 = "case count_key key p of Some p' \<Rightarrow> p' | None \<Rightarrow> p"
  have k1: "map fst (input_counts (proc_metrics ?p1)) = map fst (input_counts (proc_metrics p))"
    by (rule keys_count_key)
  have k2: "map fst (input_counts (proc_metrics ?p2)) = map fst (input_counts (proc_metrics p))"
    using keys_count_key [where key = key and es = "[]" and p = p]
    by (simp add: emit_def split: option.splits)
  show "map fst (input_counts (proc_metrics (fst (on_press f now key p))))
          = map fst (input_counts (proc_metrics p))"
  proof (cases "key = Key ''esc''")
    case True
    have "on_press f now key p = stop_program f now ?p1"
      unfolding True on_press_def Let_def by simp
    then show ?thesis by (simp only: input_counts_stop_program k1)
  next
    case False
    have "on_press f now key p = (?p1, Continue)"
      by (simp add: on_press_def Let_def False)
    then show ?thesis by (simp only: fst_conv k1)
  qed
  show "map fst (input_counts (proc_metrics (fst (InputTracker_on_key_press f now key p))))
          = map fst (input_counts (proc_metrics p))"
  proof (cases "key = Key ''esc''")
    case True
    have "InputTracker_on_key_press f now key p = stop_program f now ?p2"
      unfolding True InputTracker_on_key_press_def Let_def by simp
    then show ?thesis by (simp only: input_counts_stop_program k2)
  next
    case False
    have "InputTracker_on_key_press f now key p = (?p2, Continue)"
      by (simp add: InputTracker_on_key_press_def Let_def False)
    then show ?thesis by (simp only: fst_conv k2)
  qed
qed

lemma keys_step:
  "map fst (input_counts (proc_metrics (fst (step prog e p))))
     = map fst (input_counts (proc_metrics p))"
proof -
  obtain ev f now where e: "e = (ev, f, now)" by (cases e)
  show ?thesis
  proof (cases ev)
    case (KeyPress key)
    show ?thesis
      by (cases prog) (simp_all add: e KeyPress keys_key_handlers)
  next
    case (Click button pressed)
    show ?thesis by (simp add: e Click on_click_def keys_increment)
  next
    case Tick
    have "input_counts (proc_metrics (save_tick f now p)) = input_counts (proc_metrics p)"
      using save_data_shape [of f now "proc_metrics p" "proc_store p"]
      by (cases "Database_save_data f now (proc_metrics p) (proc_store p)")
         (auto simp: save_tick_def)
    then show ?thesis by (simp add: e Tick)
  qed
qed

lemma keys_run:
  "map fst (input_counts (proc_metrics (fst (run prog evs p))))
     = map fst (input_counts (proc_metrics p))"
proof (induction evs arbitrary: p)
  case Nil
  show ?case by simp
next
  case (Cons e evs)
  obtain p' oc where st: "step prog e p = (p', oc)" by (cases "step prog e p")
  from keys_step [of prog e p] st
  have k: "map fst (input_counts (proc_metrics p')) = map fst (input_counts (proc_metrics p))"
    by simp
  show ?case
    by (cases oc) (simp_all add: st k Cons.IH)
qed

lemma keys_startup:
  assumes "dict_wf (rows st)" and "startup prog NoFault now st = Inr p"
  shows "fst ` set (input_counts (proc_metrics p)) = set ALL_INPUTS \<union> fst ` set (rows st)"
proof -
  have "fst ` set (input_counts (proc_metrics p)) = dom (count_of p)"
    by (simp add: count_of_def [abs_def] dom_map_of_conv_image_fst)
  also have "\<dots> = set ALL_INPUTS \<union> dom (map_of (rows st))"
    by (auto simp: dom_def startup_counts [OF assms] split: option.splits if_splits)
  finally show ?thesis by (simp add: dom_map_of_conv_image_fst)
qed

subsection \<open>Persistence\<close>

text \<open>
  C7. \<^verbatim>\<open>_initialize_inputs\<close> is idempotent. On any table (the program creates the
  table before it calls the function), a run that meets no fault
  leaves every row that was there as it was, count and timestamp, and adds the row
  \<open>(0, now)\<close> exactly for the members of \<^verbatim>\<open>ALL_INPUTS\<close> that had no row. A second
  run, at any later time, returns the table of the first unchanged, so no count, zero or
  not, is reset. The two files hold the same function.
\<close>

theorem initialize_inputs_idempotent:
  "\<exists>t'. Database_initialize_inputs NoFault now (Some t) = Inr (Some t')
      \<and> DatabaseManager_initialize_inputs NoFault now (Some t) = Inr (Some t')
      \<and> (\<forall>name. map_of t' name =
            (case map_of t name of
               Some r \<Rightarrow> Some r
             | None \<Rightarrow> if name \<in> set ALL_INPUTS then Some (0, now) else None))
      \<and> Database_initialize_inputs NoFault now' (Some t') = Inr (Some t')
      \<and> DatabaseManager_initialize_inputs NoFault now' (Some t') = Inr (Some t')"
  by (simp add: Database_initialize_inputs_def DatabaseManager_initialize_inputs_def
      map_of_initialize initialize_twice)

text \<open>
  C8. Round trip. For every counter table (a dictionary, so its keys are distinct),
  saving it to a store whose table is empty succeeds when no step fails, and loading
  that store gives back the dictionary itself: the same identifiers with the same counts,
  in the same order. The code takes no snapshot: \<^verbatim>\<open>save_data\<close> reads
  \<^verbatim>\<open>input_counts\<close> of the metrics object it is given. Both files.
\<close>

theorem roundtrip:
  assumes "dict_wf (input_counts data)"
  shows "Database_load_data NoFault (fst (snd (Database_save_data NoFault now data (Some []))))
           = Inr (input_counts data)
       \<and> snd (snd (snd (Database_save_data NoFault now data (Some [])))) = None
       \<and> DatabaseManager_load_previous_data NoFault
           (fst (snd (DatabaseManager_save_metrics NoFault now data (Some []))))
           = Inr (input_counts data)
       \<and> snd (snd (snd (DatabaseManager_save_metrics NoFault now data (Some [])))) = None"
  using assms
  by (simp add: Database_save_data_def Database_load_data_def DatabaseManager_save_metrics_def
      DatabaseManager_load_previous_data_def Let_def dict_wf_def load_upsert_all_empty)

theorem roundtrip_witness:
  "dict_wf [(''a'', 3::int), (''esc'', 1)]
   \<and> Database_load_data NoFault
        (fst (snd (Database_save_data NoFault ''t1''
           \<lparr>input_counts = [(''a'', 3), (''esc'', 1)], last_updated = None\<rparr> (Some []))))
       = Inr [(''a'', 3), (''esc'', 1)]"
  using roundtrip [of "\<lparr>input_counts = [(''a'', 3), (''esc'', 1)], last_updated = None\<rparr>" "''t1''"]
  by (simp add: dict_wf_def)

subsection \<open>Startup merge\<close>

text \<open>
  C2 (as amended). \<^verbatim>\<open>input_counts.update(previous_data)\<close> assigns every loaded item, whether
  or not its name is in the vocabulary. After a startup in which nothing fails, on any store
  (its rows have distinct names, \<^verbatim>\<open>input_name\<close> being the primary key), the counter of a
  name is the persisted count when the store has a row of that name, 0 when it has none and
  the name is in \<^verbatim>\<open>ALL_INPUTS\<close>, and absent otherwise. After the merge and after every
  later operation (key presses, clicks and saves, under any faults) the identifiers of the
  counter table are the vocabulary together with the persisted names: no operation adds or
  removes an identifier. So the table holds no identifier outside the vocabulary exactly when
  the store held none. Both programs.
\<close>

theorem startup_merge:
  assumes "dict_wf (rows st)"
  shows "\<exists>p. startup prog NoFault now st = Inr p
           \<and> (\<forall>name. count_of p name =
                 (case map_of (rows st) name of
                    Some (c, ts) \<Rightarrow> Some c
                  | None \<Rightarrow> if name \<in> set ALL_INPUTS then Some 0 else None))
           \<and> (\<forall>evs. fst ` set (input_counts (proc_metrics (fst (run prog evs p))))
                 = set ALL_INPUTS \<union> fst ` set (rows st))"
proof -
  from startup_NoFault [of prog now st]
  obtain p where p: "startup prog NoFault now st = Inr p" by blast
  have "fst ` set (input_counts (proc_metrics (fst (run prog evs p))))
          = set ALL_INPUTS \<union> fst ` set (rows st)" for evs
    using keys_startup [OF assms p] keys_run [of prog evs p]
    by (metis set_map)
  with startup_counts [OF assms p] p show ?thesis by blast
qed

theorem startup_merge_witness:
  "dict_wf (rows (Some [(''a'', 10, ''then''), (''foo'', 5, ''then'')]))
   \<and> (\<exists>p. startup Metric_collector NoFault ''now'' (Some [(''a'', 10, ''then''), (''foo'', 5, ''then'')]) = Inr p
          \<and> count_of p ''a'' = Some 10 \<and> count_of p ''esc'' = Some 0
          \<and> count_of p ''foo'' = Some 5 \<and> count_of p ''Q'' = None
          \<and> fst ` set (input_counts (proc_metrics (fst (run Metric_collector scenario p))))
              = set ALL_INPUTS \<union> {''a'', ''foo''})"
proof -
  have wf: "dict_wf (rows (Some [(''a'', 10::int, ''then''), (''foo'', 5, ''then'')]))"
    by (simp add: dict_wf_def)
  from startup_merge [OF wf, of Metric_collector "''now''"]
  obtain p where p: "startup Metric_collector NoFault ''now''
                       (Some [(''a'', 10, ''then''), (''foo'', 5, ''then'')]) = Inr p"
    and c: "\<And>name. count_of p name =
                 (case map_of (rows (Some [(''a'', 10::int, ''then''), (''foo'', 5, ''then'')])) name of
                    Some (c, ts) \<Rightarrow> Some c
                  | None \<Rightarrow> if name \<in> set ALL_INPUTS then Some 0 else None)"
    and k: "\<And>evs. fst ` set (input_counts (proc_metrics (fst (run Metric_collector evs p))))
                 = set ALL_INPUTS
                   \<union> fst ` set (rows (Some [(''a'', 10::int, ''then''), (''foo'', 5, ''then'')]))"
    by blast
  have "count_of p ''a'' = Some 10" "count_of p ''esc'' = Some 0"
       "count_of p ''foo'' = Some 5" "count_of p ''Q'' = None"
    by (simp_all add: c in_ALL_INPUTS not_in_ALL_INPUTS)
  moreover have "fst ` set (input_counts (proc_metrics (fst (run Metric_collector scenario p))))
              = set ALL_INPUTS \<union> {''a'', ''foo''}"
    by (simp add: k)
  ultimately show ?thesis using wf p by blast
qed

text \<open>Not every loaded name outside the vocabulary is ignored: a persisted row \<^verbatim>\<open>foo\<close>, a name outside the vocabulary,
  is loaded into the counter table by both programs.\<close>

theorem merge_keeps_unknown_names:
  "startup Input_tracker NoFault ''t0'' (Some [(''foo'', 5, ''then'')])
     = Inr (started Input_tracker (Some [(''foo'', 5, ''then'')]))
   \<and> count_of (started Input_tracker (Some [(''foo'', 5, ''then'')])) ''foo'' = Some 5
   \<and> startup Metric_collector NoFault ''t0'' (Some [(''foo'', 5, ''then'')])
     = Inr (started Metric_collector (Some [(''foo'', 5, ''then'')]))
   \<and> count_of (started Metric_collector (Some [(''foo'', 5, ''then'')])) ''foo'' = Some 5
   \<and> ''foo'' \<notin> set ALL_INPUTS"
proof -
  have wf: "dict_wf (rows (Some [(''foo'', 5::int, ''then'')]))"
    by (simp add: dict_wf_def)
  have "count_of (started prog (Some [(''foo'', 5, ''then'')])) ''foo'' = Some 5" for prog
    using startup_counts [OF wf startup_started, of prog "''foo''"] by simp
  then show ?thesis by (simp add: startup_started not_in_ALL_INPUTS)
qed

subsection \<open>Counting key presses\<close>




subsection \<open>The scenario of the specification\<close>

text \<open>
  C3 (as amended). From a startup on an empty store, three presses of \<^verbatim>\<open>a\<close>, two left
  clicks and a press of escape: the process exits with status 0; one session summary is
  printed, with 2 left clicks, no right or middle click and 4 key presses in total, the
  press of escape being counted as a key press itself; one snapshot is committed, at the
  time of the escape, and it is the final counter table: \<^verbatim>\<open>a\<close> 3, \<^verbatim>\<open>esc\<close> 1,
  \<^verbatim>\<open>mouse_left\<close> 2, every other name of the vocabulary 0; the store then holds exactly
  these counts. Both programs.
\<close>

theorem scenario_summary:
  "snd (run prog scenario (fresh prog)) = Exit 0
   \<and> session_summaries (proc_trace (fst (run prog scenario (fresh prog))))
       = [\<lparr>clicks_L = 2, clicks_R = 0, clicks_M = 0, total_key_presses = 4,
           shown_last_updated = None\<rparr>]
   \<and> commits (proc_trace (fst (run prog scenario (fresh prog))))
       = [(input_counts (proc_metrics (fst (run prog scenario (fresh prog)))), ''t6'')]
   \<and> (\<forall>name. count_of (fst (run prog scenario (fresh prog))) name
         = (if name = ''a'' then Some 3
            else if name = ''esc'' then Some 1
            else if name = ''mouse_left'' then Some 2
            else if name \<in> set ALL_INPUTS then Some 0 else None))
   \<and> (\<forall>name. map_of (rows (proc_store (fst (run prog scenario (fresh prog))))) name
         = map_option (\<lambda>c. (c, ''t6'')) (count_of (fst (run prog scenario (fresh prog))) name))"
  by (rule scenario_final)

text \<open>The summary of the scenario reports 4 key presses, not 3, in both programs.\<close>

theorem scenario_total_is_four:
  "map total_key_presses
     (session_summaries (proc_trace (fst (run Input_tracker scenario (fresh Input_tracker))))) = [4]
   \<and> map total_key_presses
     (session_summaries (proc_trace (fst (run Metric_collector scenario (fresh Metric_collector))))) = [4]"
  using scenario_final [of Input_tracker] scenario_final [of Metric_collector]
  by simp

subsection \<open>The shutdown sequence\<close>

text \<open>
  C4 (as amended). When the stop key is pressed, the table exists and nothing fails, the
  effects are, in this order: the press is counted; \<^verbatim>\<open>Stopping program...\<close> is printed;
  the session summary is printed, showing the counts with this press and the timestamp of
  the previous save; the whole counter table is committed with the current time; the
  current counts are printed; the process exits with status 0, and no later event is handled.
  Both programs.
\<close>

theorem stop_key_sequence:
  assumes "proc_store p = Some t" and "count_of p ''esc'' = Some c"
  shows "\<exists>p'. step prog (KeyPress (Key ''esc''), NoFault, now) p = (p', Exit 0)
     \<and> run prog ((KeyPress (Key ''esc''), NoFault, now) # rest) p = (p', Exit 0)
     \<and> (\<forall>name. count_of p' name = (if name = ''esc'' then Some (c + 1) else count_of p name))
     \<and> last_updated (proc_metrics p') = Some now
     \<and> proc_store p' = Some (upsert_all (input_counts (proc_metrics p')) now t)
     \<and> proc_trace p' = proc_trace p @
         [Printed Stopping_program,
          Printed (Total_metrics ((Metrics_str (proc_metrics p'))
                     \<lparr>shown_last_updated := last_updated (proc_metrics p)\<rparr>)),
          Committed (input_counts (proc_metrics p')) now,
          Printed (Current_Input_Counts
                     (current_counts (upsert_all (input_counts (proc_metrics p')) now t)))]"
  using stop_trace [OF assms, of prog now] run_stop [OF assms(2) assms(1), of prog now rest]
  by (auto simp del: step.simps run.simps)

theorem stop_key_sequence_witness:
  "(\<exists>t. proc_store (fresh Input_tracker) = Some t)
   \<and> count_of (fresh Input_tracker) ''esc'' = Some 0
   \<and> (\<exists>p'. step Input_tracker (KeyPress (Key ''esc''), NoFault, ''t1'') (fresh Input_tracker) = (p', Exit 0)
          \<and> count_of p' ''esc'' = Some 1
          \<and> last_updated (proc_metrics p') = Some ''t1''
          \<and> map kind_of (proc_trace p') = [Other, Summary, Commit, Other])"
proof -
  obtain t where t: "proc_store (fresh Input_tracker) = Some t" using fresh_store by blast
  have c: "count_of (fresh Input_tracker) ''esc'' = Some 0"
    by (simp add: count_of_fresh in_ALL_INPUTS)
  from stop_key_sequence [OF t c, of Input_tracker "''t1''" "[]"] t c show ?thesis
    by (auto simp: fresh_other simp del: step.simps run.simps)
qed

text \<open>The snapshot is not persisted first: the summary is printed before the snapshot is
  committed, in both programs.\<close>

theorem summary_printed_before_commit:
  "map kind_of
     (proc_trace (fst (step Input_tracker (KeyPress (Key ''esc''), NoFault, ''t1'') (fresh Input_tracker))))
     = [Other, Summary, Commit, Other]
   \<and> map kind_of
     (proc_trace (fst (step Metric_collector (KeyPress (Key ''esc''), NoFault, ''t1'') (fresh Metric_collector))))
     = [Other, Other, Summary, Commit, Other]"
  using stop_kinds [of Input_tracker] stop_kinds [of Metric_collector]
  by (simp del: step.simps)

text \<open>
  C5 (as amended). When the stop key is pressed, the session summary is printed whatever
  the final save does, since it is printed before it. When the save succeeds the process exits
  with status 0. When it fails (a fault of the store, or no table) the exception leaves the
  handler: \<^verbatim>\<open>os._exit\<close> is not reached and the handler sets no exit status. Both
  programs.
\<close>

theorem shutdown_flush_outcome:
  assumes "count_of p ''esc'' = Some c"
  shows "session_summaries (proc_trace (fst (step prog (KeyPress (Key ''esc''), f, now) p)))
           = session_summaries (proc_trace p)
             @ [(Metrics_str (proc_metrics (fst (step prog (KeyPress (Key ''esc''), f, now) p))))
                  \<lparr>shown_last_updated := last_updated (proc_metrics p)\<rparr>]
       \<and> snd (step prog (KeyPress (Key ''esc''), f, now) p)
           = (if f = ConnectFails then Raise DatabaseError
              else if f = ExecuteFails then Raise DatabaseError
              else if proc_store p = None then Raise UndefinedTable
              else if f = CommitFails then Raise DatabaseError
              else if f = QueryFails then Raise DatabaseError
              else Exit 0)"
proof -
  let ?p1 = "fst (increment ''esc'' p)"
  have ne: "input_counts (proc_metrics ?p1) \<noteq> []"
    by (rule count_of_nonempty [of _ "''esc''" "c + 1"]) (simp add: count_of_increment assms)
  have ms: "(Metrics_str (proc_metrics (fst (stop_program f now ?p1))))
              \<lparr>shown_last_updated := last_updated (proc_metrics p)\<rparr>
            = Metrics_str (proc_metrics ?p1)"
    by (simp add: Metrics_str_def input_counts_stop_program)
  show ?thesis
    unfolding step_stop [OF assms]
    by (simp add: stop_program_summaries stop_program_outcome [OF ne] ms)
qed

theorem shutdown_flush_outcome_witness:
  "count_of (fresh Input_tracker) ''esc'' = Some 0
   \<and> snd (step Input_tracker (KeyPress (Key ''esc''), NoFault, ''t1'') (fresh Input_tracker)) = Exit 0
   \<and> snd (step Input_tracker (KeyPress (Key ''esc''), CommitFails, ''t1'') (fresh Input_tracker))
       = Raise DatabaseError
   \<and> map total_key_presses (session_summaries (proc_trace
        (fst (step Input_tracker (KeyPress (Key ''esc''), CommitFails, ''t1'') (fresh Input_tracker)))))
       = [1]"
proof -
  obtain t where t: "proc_store (fresh Input_tracker) = Some t" using fresh_store by blast
  have c: "count_of (fresh Input_tracker) ''esc'' = Some 0"
    by (simp add: count_of_fresh in_ALL_INPUTS)
  have tot: "total_key_presses (Metrics_str (proc_metrics (fst (stop_program f now
               (fst (increment ''esc'' (fresh Input_tracker))))))) = 1" for f now
    by (simp add: total_stop_program total_increment c total_fresh startswith_def)
  from shutdown_flush_outcome [OF c, of Input_tracker NoFault "''t1''"]
    shutdown_flush_outcome [OF c, of Input_tracker CommitFails "''t1''"] t c tot
  show ?thesis
    by (simp add: fresh_other step_stop [OF c] del: step.simps)
qed

text \<open>No status other than 0 is signalled: with a store that cannot be reached the handler
  raises, in both programs.\<close>

theorem failed_shutdown_flush_raises:
  "snd (step Input_tracker (KeyPress (Key ''esc''), ConnectFails, ''t1'') (fresh Input_tracker))
     = Raise DatabaseError
   \<and> snd (step Metric_collector (KeyPress (Key ''esc''), ConnectFails, ''t1'') (fresh Metric_collector))
     = Raise DatabaseError"
proof -
  have c: "count_of (fresh prog) ''esc'' = Some 0" for prog
    by (simp add: count_of_fresh in_ALL_INPUTS)
  have ne: "input_counts (proc_metrics (fst (increment ''esc'' (fresh prog)))) \<noteq> []" for prog
    by (rule count_of_nonempty [of _ "''esc''" 1]) (simp add: count_of_increment c)
  show ?thesis
    by (simp add: step_stop [OF c] stop_program_outcome [OF ne] del: step.simps)
qed

subsection \<open>Keys outside the vocabulary\<close>

text \<open>
  C6. A press of \<^verbatim>\<open>Q\<close>, a key that is not in the vocabulary, after a startup on an empty
  store. \<^verbatim>\<open>on_press\<close> of input-tracker.py leaves the counters as they are, prints
  \<^verbatim>\<open>Unknown key: Q\<close> and goes on. \<^verbatim>\<open>InputTracker._on_key_press\<close> of
  metric-collector.py leaves the whole process as it is and goes on: it prints nothing.
\<close>

theorem unknown_key_no_diagnostic:
  "''Q'' \<notin> set ALL_INPUTS
   \<and> step Input_tracker (KeyPress (KeyCode (Some ''Q'')), NoFault, ''t1'') (fresh Input_tracker)
       = (emit [Printed (Unknown_key ''Q'')] (fresh Input_tracker), Continue)
   \<and> step Metric_collector (KeyPress (KeyCode (Some ''Q'')), NoFault, ''t1'') (fresh Metric_collector)
       = (fresh Metric_collector, Continue)"
proof -
  have n: "count_key (KeyCode (Some ''Q'')) (fresh prog) = None" for prog
    by (rule count_key_None) (simp add: count_of_fresh not_in_ALL_INPUTS)
  show ?thesis
    by (simp add: not_in_ALL_INPUTS on_press_def InputTracker_on_key_press_def n shown_def)
qed

subsection \<open>Persisted counts over a session\<close>



subsection \<open>A save interleaved with the handlers\<close>

lemma items_increment:
  "input_counts (proc_metrics (fst (increment name p)))
     = (case map_of (input_counts (proc_metrics p)) name of
          None \<Rightarrow> input_counts (proc_metrics p)
        | Some c \<Rightarrow> AList.update name (c + 1) (input_counts (proc_metrics p)))"
  by (simp add: increment_def split: option.splits)

lemma loop_turns:
  "length sent + m \<le> length (input_counts (proc_metrics p)) \<Longrightarrow>
   interleaved (replicate m Loop_turn) (p, sent)
     = (p, sent @ take m (drop (length sent) (input_counts (proc_metrics p))))"
proof (induction m arbitrary: sent)
  case 0
  show ?case by (simp add: interleaved_def)
next
  case (Suc m)
  let ?d = "input_counts (proc_metrics p)"
  from Suc.prems have lt: "length sent < length ?d" by simp
  from Suc.prems have "length (sent @ [?d ! length sent]) + m \<le> length ?d" by simp
  from Suc.IH [OF this]
  have "interleaved (replicate m Loop_turn) (p, sent @ [?d ! length sent])
          = (p, sent @ ?d ! length sent # take m (drop (Suc (length sent)) ?d))"
    by simp
  moreover have "?d ! length sent # take m (drop (Suc (length sent)) ?d)
                   = take (Suc m) (drop (length sent) ?d)"
    using lt by (simp add: Cons_nth_drop_Suc [symmetric])
  ultimately show ?case using lt by (simp add: interleaved_def)
qed

lemma tables_loop_turns:
  "set (tables_during (replicate m Loop_turn) (p, sent)) = {input_counts (proc_metrics p)}"
  by (induction m arbitrary: sent) simp_all

lemma keys_tables_during:
  "T \<in> set (tables_during steps (p, sent)) \<Longrightarrow>
   map fst T = map fst (input_counts (proc_metrics p))"
proof (induction steps arbitrary: p sent)
  case Nil
  then show ?case by simp
next
  case (Cons a steps)
  show ?case
  proof (cases a)
    case Loop_turn
    with Cons show ?thesis by (auto split: if_splits)
  next
    case (Handler_increment name)
    with Cons.prems have "T = input_counts (proc_metrics p)
        \<or> T \<in> set (tables_during steps (fst (increment name p), sent))" by simp
    then show ?thesis
      using Cons.IH [of "fst (increment name p)" sent] by (auto simp: keys_increment)
  qed
qed

lemma sent_rows:
  "\<exists>new. snd (interleaved steps (p, sent0)) = sent0 @ new
     \<and> (\<forall>i. length sent0 \<le> i \<and> i < length (sent0 @ new) \<longrightarrow>
            (\<exists>T \<in> set (tables_during steps (p, sent0)). (sent0 @ new) ! i = T ! i))"
proof (induction steps arbitrary: p sent0)
  case Nil
  show ?case by (auto simp: interleaved_def)
next
  case (Cons a steps)
  let ?d = "input_counts (proc_metrics p)"
  show ?case
  proof (cases a)
    case (Handler_increment name)
    from Cons.IH [of "fst (increment name p)" sent0]
    show ?thesis by (auto simp: Handler_increment interleaved_def)
  next
    case Loop_turn
    show ?thesis
    proof (cases "length sent0 < length ?d")
      case False
      with Cons.IH [of p sent0]
      show ?thesis by (auto simp: Loop_turn interleaved_def)
    next
      case True
      let ?s1 = "sent0 @ [?d ! length sent0]"
      from Cons.IH [of p ?s1]
      obtain new where n: "snd (interleaved steps (p, ?s1)) = ?s1 @ new"
        and r: "\<And>i. length ?s1 \<le> i \<Longrightarrow> i < length (?s1 @ new) \<Longrightarrow>
                  \<exists>T \<in> set (tables_during steps (p, ?s1)). (?s1 @ new) ! i = T ! i"
        by blast
      have eq: "snd (interleaved (a # steps) (p, sent0)) = sent0 @ (?d ! length sent0 # new)"
        using n True by (simp add: Loop_turn interleaved_def)
      have "\<exists>T \<in> set (tables_during (a # steps) (p, sent0)).
               (sent0 @ (?d ! length sent0 # new)) ! i = T ! i"
        if lo: "length sent0 \<le> i" and hi: "i < length (sent0 @ (?d ! length sent0 # new))" for i
      proof (cases "i = length sent0")
        case True
        then have "(sent0 @ (?d ! length sent0 # new)) ! i = ?d ! i" by simp
        then show ?thesis by (auto simp: Loop_turn)
      next
        case False
        with lo have "length ?s1 \<le> i" by simp
        moreover from hi have "i < length (?s1 @ new)" by simp
        ultimately obtain T where "T \<in> set (tables_during steps (p, ?s1))"
          and "(?s1 @ new) ! i = T ! i" using r by blast
        then show ?thesis using \<open>length sent0 < length ?d\<close> by (auto simp: Loop_turn)
      qed
      with eq show ?thesis by blast
    qed
  qed
qed

lemma initialize_fresh:
  "distinct ns \<Longrightarrow> set ns \<inter> fst ` set t = {} \<Longrightarrow>
   fold (\<lambda>name. insert_do_nothing name r) ns t = t @ map (\<lambda>name. (name, r)) ns"
proof (induction ns arbitrary: t)
  case Nil
  show ?case by simp
next
  case (Cons n ns)
  from Cons.prems have fresh: "\<not> dict_in n t"
    by (auto simp: dict_in_def map_of_eq_None_iff)
  from Cons.prems have "distinct ns" and "set ns \<inter> fst ` set (t @ [(n, r)]) = {}" by auto
  from Cons.IH [OF this] fresh show ?case by (simp add: insert_do_nothing_def)
qed

lemma initial_counts_eq: "initial_counts = map (\<lambda>key. (key, 0)) ALL_INPUTS"
proof -
  have d: "distinct (map fst (map (\<lambda>key. (key, 0::int)) ALL_INPUTS))"
    by (simp add: comp_def distinct_ALL_INPUTS)
  show ?thesis by (simp add: initial_counts_def dict_of_distinct [OF d])
qed

lemma dict_update_same:
  "\<forall>(k, v) \<in> set other. map_of d k = Some v \<Longrightarrow> dict_update d other = d"
  unfolding dict_update_def
  by (induction other) (auto simp: update_triv)

lemma fresh_table:
  "input_counts (proc_metrics (fresh prog)) = map (\<lambda>key. (key, 0)) ALL_INPUTS"
proof -
  let ?z = "map (\<lambda>key. (key, 0::int)) ALL_INPUTS"
  have d: "distinct (map fst ?z)" by (simp add: comp_def distinct_ALL_INPUTS)
  have t: "fold (\<lambda>name. insert_do_nothing name (0, ''t0'')) ALL_INPUTS []
             = map (\<lambda>name. (name, (0, ''t0''))) ALL_INPUTS"
    using initialize_fresh [OF distinct_ALL_INPUTS, of "[]" "(0, ''t0'')"] by simp
  have l: "map ((\<lambda>(name, count, ts). (name, count)) \<circ> (\<lambda>name. (name, (0::int, ''t0''))))
              ALL_INPUTS = ?z" by simp
  have same: "dict_update ?z ?z = ?z"
    using d by (intro dict_update_same) auto
  from startup_NoFault [of prog "''t0''" None]
  have "input_counts (proc_metrics (fresh prog)) = dict_update initial_counts (dict_of ?z)"
    by (auto simp: fresh_def started_def t l)
  then show ?thesis
    by (simp add: initial_counts_eq dict_of_distinct [OF d] same)
qed

lemma torn:
  assumes d: "input_counts (proc_metrics p) = (k0, c0) # (k1, c1) # R" and ne: "k0 \<noteq> k1"
  shows "snd (interleaved
           (Loop_turn # Handler_increment k0 # Handler_increment k1
              # replicate (Suc (length R)) Loop_turn) (p, []))
         = (k0, c0) # (k1, c1 + 1) # R"
    and "set (tables_during
           (Loop_turn # Handler_increment k0 # Handler_increment k1
              # replicate (Suc (length R)) Loop_turn) (p, []))
         = {(k0, c0) # (k1, c1) # R, (k0, c0 + 1) # (k1, c1) # R, (k0, c0 + 1) # (k1, c1 + 1) # R}"
proof -
  let ?p1 = "fst (increment k0 p)"
  let ?p2 = "fst (increment k1 ?p1)"
  have d1: "input_counts (proc_metrics ?p1) = (k0, c0 + 1) # (k1, c1) # R"
    by (simp add: items_increment d)
  have d2: "input_counts (proc_metrics ?p2) = (k0, c0 + 1) # (k1, c1 + 1) # R"
    unfolding items_increment [of k1 ?p1] d1 using ne by simp
  have turns: "interleaved (replicate (Suc (length R)) Loop_turn) (?p2, [(k0, c0)])
                 = (?p2, (k0, c0) # (k1, c1 + 1) # R)"
    using loop_turns [of "[(k0, c0)]" "Suc (length R)" ?p2] by (simp add: d2)
  have start: "interleaved
           (Loop_turn # Handler_increment k0 # Handler_increment k1
              # replicate (Suc (length R)) Loop_turn) (p, [])
         = interleaved (replicate (Suc (length R)) Loop_turn) (?p2, [(k0, c0)])"
    by (simp add: interleaved_def d)
  show "snd (interleaved
           (Loop_turn # Handler_increment k0 # Handler_increment k1
              # replicate (Suc (length R)) Loop_turn) (p, []))
         = (k0, c0) # (k1, c1 + 1) # R"
    by (simp only: start turns snd_conv)
  have "set (tables_during
           (Loop_turn # Handler_increment k0 # Handler_increment k1
              # replicate (Suc (length R)) Loop_turn) (p, []))
         = {input_counts (proc_metrics p), input_counts (proc_metrics ?p1)}
           \<union> set (tables_during (replicate (Suc (length R)) Loop_turn) (?p2, [(k0, c0)]))"
    by (simp add: d del: replicate.simps) 
  then show "set (tables_during
           (Loop_turn # Handler_increment k0 # Handler_increment k1
              # replicate (Suc (length R)) Loop_turn) (p, []))
         = {(k0, c0) # (k1, c1) # R, (k0, c0 + 1) # (k1, c1) # R, (k0, c0 + 1) # (k1, c1 + 1) # R}"
    by (simp only: tables_loop_turns d d1 d2) auto
qed

lemma torn_fresh:
  "snd (interleaved torn_schedule (fresh prog, []))
     \<notin> set (tables_during torn_schedule (fresh prog, []))
   \<and> length (snd (interleaved torn_schedule (fresh prog, [])))
       = length (input_counts (proc_metrics (fresh prog)))
   \<and> snd (interleaved torn_schedule (fresh prog, [])) ! 1 = (''shift_r'', 1)"
proof -
  let ?R = "map (\<lambda>key. (key, 0::int)) (tl (tl ALL_INPUTS))"
  have al: "ALL_INPUTS = ''shift'' # ''shift_r'' # tl (tl ALL_INPUTS)"
    by (simp add: ALL_INPUTS_def SPECIAL_KEYS_def)
  have d: "input_counts (proc_metrics (fresh prog)) = (''shift'', 0) # (''shift_r'', 0) # ?R"
    by (subst fresh_table, subst al) simp
  have len: "length ?R = 111"
    by (simp add: ALL_INPUTS_def SPECIAL_KEYS_def REGULAR_KEYS_def MOUSE_BUTTONS_def)
  have sch: "torn_schedule
               = Loop_turn # Handler_increment ''shift'' # Handler_increment ''shift_r''
                   # replicate (Suc (length ?R)) Loop_turn"
    by (simp only: torn_schedule_def len) simp
  have ne: "''shift'' \<noteq> ''shift_r''" by simp
  show ?thesis
    unfolding sch torn(1) [OF d ne] torn(2) [OF d ne] d
    by simp
qed

text \<open>
  C9 (as amended). A save takes no lock and no copy of the counter table. When no increment
  is handled between the turns of its loop, the rows it sends are the counter table as it is.
  Under any interleaving of the turns with increments of the handlers, the identifiers of
  the table do not change, and every row sent is the item the table holds at its position
  at some moment of the interleaving: no row holds a count its identifier never had. The
  rows of one save together need not be a state the table ever was in.
\<close>

theorem flush_reads_live_table:
  "interleaved (replicate (length (input_counts (proc_metrics p))) Loop_turn) (p, [])
     = (p, input_counts (proc_metrics p))
   \<and> (\<forall>T \<in> set (tables_during steps (p, [])).
         map fst T = map fst (input_counts (proc_metrics p)))
   \<and> (\<forall>i < length (snd (interleaved steps (p, []))).
         \<exists>T \<in> set (tables_during steps (p, [])). snd (interleaved steps (p, [])) ! i = T ! i)"
proof -
  have a: "interleaved (replicate (length (input_counts (proc_metrics p))) Loop_turn) (p, [])
             = (p, input_counts (proc_metrics p))"
    using loop_turns [of "[]" "length (input_counts (proc_metrics p))" p] by simp
  from sent_rows [of steps p "[]"]
  have c: "\<forall>i < length (snd (interleaved steps (p, []))).
         \<exists>T \<in> set (tables_during steps (p, [])). snd (interleaved steps (p, [])) ! i = T ! i"
    by auto
  from a c show ?thesis by (auto dest: keys_tables_during)
qed

theorem flush_reads_live_table_witness:
  "interleaved (replicate (length (input_counts (proc_metrics (fresh Input_tracker)))) Loop_turn)
     (fresh Input_tracker, [])
     = (fresh Input_tracker, input_counts (proc_metrics (fresh Input_tracker)))
   \<and> 1 < length (snd (interleaved torn_schedule (fresh Input_tracker, [])))
   \<and> (\<exists>T \<in> set (tables_during torn_schedule (fresh Input_tracker, [])).
         snd (interleaved torn_schedule (fresh Input_tracker, [])) ! 1 = T ! 1
         \<and> map fst T = map fst (input_counts (proc_metrics (fresh Input_tracker))))"
proof -
  have l: "1 < length (snd (interleaved torn_schedule (fresh Input_tracker, [])))"
    using torn_fresh [of Input_tracker] by (simp add: fresh_table ALL_INPUTS_def SPECIAL_KEYS_def)
  from flush_reads_live_table [of "fresh Input_tracker" torn_schedule] l
  show ?thesis by blast
qed

text \<open>The rows of a save are not always a state of the table at one moment: the save of
  \<open>torn_schedule\<close> sends all 113 rows, \<^verbatim>\<open>shift\<close> with 0 and \<^verbatim>\<open>shift_r\<close> with 1, and
  the table never held these two counts together. Both programs.\<close>

theorem torn_snapshot:
  "snd (interleaved torn_schedule (fresh Input_tracker, []))
     \<notin> set (tables_during torn_schedule (fresh Input_tracker, []))
   \<and> length (snd (interleaved torn_schedule (fresh Input_tracker, [])))
       = length (input_counts (proc_metrics (fresh Input_tracker)))
   \<and> snd (interleaved torn_schedule (fresh Metric_collector, []))
     \<notin> set (tables_during torn_schedule (fresh Metric_collector, []))
   \<and> length (snd (interleaved torn_schedule (fresh Metric_collector, [])))
       = length (input_counts (proc_metrics (fresh Metric_collector)))"
  using torn_fresh [of Input_tracker] torn_fresh [of Metric_collector] by simp

end
